theory Spec2Isabelle
  imports Complex_Main "HOL-Library.Word" "HOL-Library.Sublist"
begin

section \<open>Data model\<close>

text \<open>
  The pipeline of \<^verbatim>\<open>pipeline.cpp\<close> drives the QuadriFlow solver. C++ \<^verbatim>\<open>int\<close> and
  \<^verbatim>\<open>uint32_t\<close> are 32-bit words (\<open>sint\<close> reads an \<^verbatim>\<open>int\<close>, \<open>unat\<close> a
  \<^verbatim>\<open>uint32_t\<close>; the conversion between the two keeps the bits). A \<^verbatim>\<open>double\<close> is
  a real number and the values the code stores are modelled without rounding, with one
  exception: the comparison \<^verbatim>\<open>edge.squaredNorm() > 0\<close>, which decides whether
  constraints are written, is not evaluated over the reals but taken from the
  floating-point arithmetic as a parameter (\<open>nonzero_test\<close> below). A pointer to an
  input array is the function from offset to element. Loop counters are natural numbers: the model is the code's
  behaviour for arrays whose offsets (\<^verbatim>\<open>i * 3 + 2\<close>, \<^verbatim>\<open>i * 4 + 3\<close>, the number of a
  half-edge) fit the type of the counter, \<^verbatim>\<open>int\<close> or \<^verbatim>\<open>uint32_t\<close>; for larger
  arrays C++ leaves the arithmetic undefined or the loop without end.
\<close>

type_synonym cint = "32 word"
type_synonym uint32 = "32 word"
type_synonym Vector3d = "real \<times> real \<times> real"
type_synonym Vector4i = "cint \<times> cint \<times> cint \<times> cint"
type_synonym 'a carray = "nat \<Rightarrow> 'a"

text \<open>
  What a call can end with instead of a value: a C++ exception (\<open>runtime_error\<close> with
  its message, \<open>out_of_range\<close> of \<^verbatim>\<open>std::vector::at\<close>, \<open>length_error\<close> of a resize
  or reserve with a negative count, any other exception of the solver) or an unchecked
  access outside an array, which C++ leaves undefined.
\<close>

datatype failure =
    runtime_error string
  | out_of_range
  | length_error
  | solver_exception string
  | undefined_behaviour

subsection \<open>Vectors of doubles\<close>

definition vec_minus :: "Vector3d \<Rightarrow> Vector3d \<Rightarrow> Vector3d" where
  "vec_minus a b = (case a of (ax, ay, az) \<Rightarrow> case b of (bx, by, bz) \<Rightarrow> (ax - bx, ay - by, az - bz))"

definition squaredNorm :: "Vector3d \<Rightarrow> real" where
  "squaredNorm a = (case a of (ax, ay, az) \<Rightarrow> ax * ax + ay * ay + az * az)"

definition vec_times :: "Vector3d \<Rightarrow> real \<Rightarrow> Vector3d" where
  "vec_times a c = (case a of (ax, ay, az) \<Rightarrow> (ax * c, ay * c, az * c))"

definition vec_plus :: "Vector3d \<Rightarrow> Vector3d \<Rightarrow> Vector3d" where
  "vec_plus a b = (case a of (ax, ay, az) \<Rightarrow> case b of (bx, by, bz) \<Rightarrow> (ax + bx, ay + by, az + bz))"

text \<open>
  The source tests \<^verbatim>\<open>edge.squaredNorm() > 0\<close> in doubles: the difference of the two
  positions, its squared length and the comparison are computed in floating-point
  arithmetic, where a squared length too small for a double has become 0 although the
  vector is not zero. The outcome of the test is a function of the exact difference of
  the two positions (the double difference is its rounding). It is a parameter of the
  model, of which only this is fixed: it is false of a vector of squared length zero, as
  in every floating-point arithmetic. \<open>passes test e\<close> reads: for the edge vector \<open>e\<close>
  the comparison of the source is true in the arithmetic \<open>test\<close>.
\<close>

typedef nonzero_test = "{t :: Vector3d \<Rightarrow> bool. \<forall>e. t e \<longrightarrow> 0 < squaredNorm e}"
  morphisms passes Abs_nonzero_test
proof
  show "(\<lambda>e. 0 < squaredNorm e) \<in> {t :: Vector3d \<Rightarrow> bool. \<forall>e. t e \<longrightarrow> 0 < squaredNorm e}"
    by simp
qed

subsection \<open>Mesh ingestion: \<^verbatim>\<open>Parametrizer2::LoadFromArrays\<close>\<close>

text \<open>
  \<^verbatim>\<open>struct obj_vertex { uint32_t p, n, uv; }\<close>, all three \<^verbatim>\<open>(uint32_t)-1\<close> by default;
  the fields are called \<open>vp\<close>, \<open>vn\<close>, \<open>vuv\<close> here. Equality compares the three
  fields, so the \<^verbatim>\<open>unordered_map\<close> keyed by it is a map on the record.
\<close>

record obj_vertex =
  vp :: uint32
  vn :: uint32
  vuv :: uint32

definition obj_vertex_of :: "uint32 \<Rightarrow> obj_vertex" where
  "obj_vertex_of x = \<lparr>vp = x, vn = - 1, vuv = - 1\<rparr>"

type_synonym VertexMap = "obj_vertex \<rightharpoonup> uint32"

text \<open>The body of the inner loop over the three corners of a face (lines 73 to 81).\<close>

fun visit_corner ::
  "VertexMap \<times> uint32 list \<times> obj_vertex list \<Rightarrow> obj_vertex
     \<Rightarrow> VertexMap \<times> uint32 list \<times> obj_vertex list" where
  "visit_corner (vertexMap, indices, vertices) v =
     (case vertexMap v of
        None \<Rightarrow> (vertexMap(v \<mapsto> word_of_nat (length vertices)),
                 indices @ [word_of_nat (length vertices)],
                 vertices @ [v])
      | Some k \<Rightarrow> (vertexMap, indices @ [k], vertices))"

definition tri :: "cint carray \<Rightarrow> nat \<Rightarrow> obj_vertex list" where
  "tri face_indices i =
     [obj_vertex_of (face_indices (i * 3)),
      obj_vertex_of (face_indices (i * 3 + 1)),
      obj_vertex_of (face_indices (i * 3 + 2))]"

text \<open>The loop over the faces (lines 66 to 83), from the empty map and vectors.\<close>

definition face_loop ::
  "cint carray \<Rightarrow> nat \<Rightarrow> VertexMap \<times> uint32 list \<times> obj_vertex list" where
  "face_loop face_indices n_faces =
     foldl (\<lambda>s i. foldl visit_corner s (tri face_indices i)) (Map.empty, [], []) [0..<n_faces]"

text \<open>\<^verbatim>\<open>std::vector::at\<close>: the checked access.\<close>

definition vector_at :: "'a list \<Rightarrow> nat \<Rightarrow> failure + 'a" where
  "vector_at xs i = (if i < length xs then Inr (xs ! i) else Inl out_of_range)"

text \<open>The loop that fills \<^verbatim>\<open>V\<close> (lines 89 to 91); the first failing access ends it.\<close>

fun fill_V :: "Vector3d list \<Rightarrow> obj_vertex list \<Rightarrow> failure + Vector3d list" where
  "fill_V positions [] = Inr []"
| "fill_V positions (v # vs) =
     (case vector_at positions (unat (vp v)) of
        Inl e \<Rightarrow> Inl e
      | Inr x \<Rightarrow> (case fill_V positions vs of Inl e \<Rightarrow> Inl e | Inr xs \<Rightarrow> Inr (x # xs)))"

definition read_positions :: "real carray \<Rightarrow> nat \<Rightarrow> Vector3d list" where
  "read_positions verts n =
     map (\<lambda>i. (verts (i * 3), verts (i * 3 + 1), verts (i * 3 + 2))) [0..<n]"

text \<open>
  \<^verbatim>\<open>LoadFromArrays\<close> up to the call of \<^verbatim>\<open>NormalizeMesh\<close> (lines 56 to 91): the compact
  vertex columns \<^verbatim>\<open>V\<close> and the data array of the 3-row matrix \<^verbatim>\<open>F\<close>, which is the
  vector \<^verbatim>\<open>indices\<close> copied bit for bit. \<^verbatim>\<open>positions.reserve(n_verts)\<close> throws on a
  negative count.
\<close>

definition LoadFromArrays_compact ::
  "real carray \<Rightarrow> cint \<Rightarrow> cint carray \<Rightarrow> cint \<Rightarrow> failure + (Vector3d list \<times> cint list)" where
  "LoadFromArrays_compact verts n_verts face_indices n_faces =
     (if sint n_verts < 0 then Inl length_error
      else
        let positions = read_positions verts (nat (sint n_verts));
            (vertexMap, indices, vertices) = face_loop face_indices (nat (sint n_faces))
        in case fill_V positions vertices of
             Inl e \<Rightarrow> Inl e
           | Inr cols \<Rightarrow> Inr (cols, indices))"

subsection \<open>The solver's objects\<close>

text \<open>
  \<^verbatim>\<open>Hierarchy\<close> and \<^verbatim>\<open>Parametrizer\<close> belong to the QuadriFlow library. The records
  hold the members that \<^verbatim>\<open>pipeline.cpp\<close> reads or writes; everything else the library
  keeps in them is the component \<open>h_internal\<close>, respectively \<open>p_internal\<close>, of a type
  the pipeline does not look into. A per-level vector such as \<^verbatim>\<open>mV\<close> is the list of its
  levels, level 0 the finest; a matrix with one column per vertex is the list of its
  columns; the 3-row integer matrix \<^verbatim>\<open>mF\<close> is its column-major data array, so that
  \<^verbatim>\<open>mF(r, c)\<close> is entry \<open>3 * c + r\<close>.
\<close>

record 'h Hierarchy =
  rng_seed :: cint
  mF :: "cint list"
  mE2E :: "cint list"
  mV :: "Vector3d list list"
  mCO :: "Vector3d list list"
  mCQ :: "Vector3d list list"
  mCQw :: "real list list"
  mCOw :: "real list list"
  h_internal :: 'h

record ('h, 'p) Parametrizer =
  flag_preserve_sharp :: cint
  flag_preserve_boundary :: cint
  flag_adaptive_scale :: cint
  flag_aggresive_sat :: cint
  flag_minimum_cost_flow :: cint
  hierarchy :: "'h Hierarchy"
  rho :: "real list"
  V :: "Vector3d list"
  F :: "cint list"
  O_compact :: "Vector3d list"
  F_compact :: "Vector4i list"
  normalize_scale :: real
  normalize_offset :: Vector3d
  p_internal :: 'p

text \<open>
  The library itself is a parameter of the model: one function per routine the pipeline
  calls, each from the object it works on to the updated object or the exception it
  throws. A member function of \<^verbatim>\<open>Parametrizer\<close> sees the whole object, a function of
  \<^verbatim>\<open>Optimizer\<close> the hierarchy and its explicit arguments (\<^verbatim>\<open>optimize_scale\<close> takes
  \<^verbatim>\<open>rho\<close> by reference). \<open>Parametrizer_new\<close> is the default-constructed object,
  \<open>normalize_vec\<close> is Eigen's \<^verbatim>\<open>normalize()\<close> and \<open>squaredNorm_positive\<close> the
  comparison \<^verbatim>\<open>squaredNorm() > 0\<close> in the arithmetic of the machine, both as functions
  of the exact edge vector. Every routine is taken to return.
\<close>

record ('h, 'p) solver =
  Parametrizer_new :: "('h, 'p) Parametrizer"
  normalize_vec :: "Vector3d \<Rightarrow> Vector3d"
  squaredNorm_positive :: nonzero_test
  NormalizeMesh :: "('h, 'p) Parametrizer \<Rightarrow> failure + ('h, 'p) Parametrizer"
  Initialize :: "('h, 'p) Parametrizer \<Rightarrow> cint \<Rightarrow> failure + ('h, 'p) Parametrizer"
  clearConstraints :: "'h Hierarchy \<Rightarrow> failure + 'h Hierarchy"
  propagateConstraints :: "'h Hierarchy \<Rightarrow> failure + 'h Hierarchy"
  optimize_orientations :: "'h Hierarchy \<Rightarrow> failure + 'h Hierarchy"
  ComputeOrientationSingularities :: "('h, 'p) Parametrizer \<Rightarrow> failure + ('h, 'p) Parametrizer"
  EstimateSlope :: "('h, 'p) Parametrizer \<Rightarrow> failure + ('h, 'p) Parametrizer"
  optimize_scale :: "'h Hierarchy \<Rightarrow> real list \<Rightarrow> cint \<Rightarrow> failure + ('h Hierarchy \<times> real list)"
  optimize_positions :: "'h Hierarchy \<Rightarrow> cint \<Rightarrow> failure + 'h Hierarchy"
  ComputePositionSingularities :: "('h, 'p) Parametrizer \<Rightarrow> failure + ('h, 'p) Parametrizer"
  ComputeIndexMap :: "('h, 'p) Parametrizer \<Rightarrow> failure + ('h, 'p) Parametrizer"

text \<open>\<^verbatim>\<open>LoadFromArrays\<close>: the compact mesh is stored in \<^verbatim>\<open>F\<close> and \<^verbatim>\<open>V\<close>, then normalised.\<close>

definition LoadFromArrays ::
  "('h, 'p) solver \<Rightarrow> ('h, 'p) Parametrizer \<Rightarrow> real carray \<Rightarrow> cint \<Rightarrow> cint carray \<Rightarrow> cint
     \<Rightarrow> failure + ('h, 'p) Parametrizer" where
  "LoadFromArrays eng field verts n_verts face_indices n_faces =
     (case LoadFromArrays_compact verts n_verts face_indices n_faces of
        Inl e \<Rightarrow> Inl e
      | Inr (cols, indices) \<Rightarrow> NormalizeMesh eng (field\<lparr>F := indices, V := cols\<rparr>))"

subsection \<open>Stages and their record\<close>

text \<open>
  To speak about the order of the calls, a run carries the list of the stages it has
  entered, oldest first, next to its outcome. A stage is recorded when it is entered,
  also when it then throws; the two optimizer calls that receive the adaptive-scale flag
  are recorded with the value passed.
\<close>

datatype stage =
    Apply_flags_and_seed
  | Load_and_normalize
  | Initialize_hierarchy cint
  | Clear_constraints
  | Derive_boundary_constraints
  | Propagate_constraints
  | Optimize_orientations
  | Compute_orientation_singularities
  | Estimate_slope
  | Optimize_scale cint
  | Optimize_positions cint
  | Compute_position_singularities
  | Compute_index_map

type_synonym 'a traced = "stage list \<times> (failure + 'a)"

definition ret :: "'a \<Rightarrow> 'a traced" where
  "ret x = ([], Inr x)"

definition enter :: "stage \<Rightarrow> failure + 'a \<Rightarrow> 'a traced" where
  "enter st r = ([st], r)"

definition bnd :: "'a traced \<Rightarrow> ('a \<Rightarrow> 'b traced) \<Rightarrow> 'b traced" where
  "bnd m f =
     (case m of
        (t, Inl e) \<Rightarrow> (t, Inl e)
      | (t, Inr x) \<Rightarrow> (case f x of (t', r) \<Rightarrow> (t @ t', r)))"

subsection \<open>Boundary constraints (lines 134 to 158 of \<^verbatim>\<open>run_quadriflow\<close>)\<close>

text \<open>The two endpoints of half-edge \<open>i\<close>: \<^verbatim>\<open>mF(i % 3, i / 3)\<close> and \<^verbatim>\<open>mF((i + 1) % 3, i / 3)\<close>.\<close>

definition edge_i0 :: "'h Hierarchy \<Rightarrow> nat \<Rightarrow> nat" where
  "edge_i0 mRes i = unat (mF mRes ! (3 * (i div 3) + i mod 3))"

definition edge_i1 :: "'h Hierarchy \<Rightarrow> nat \<Rightarrow> nat" where
  "edge_i1 mRes i = unat (mF mRes ! (3 * (i div 3) + (i + 1) mod 3))"

definition edge_vector :: "'h Hierarchy \<Rightarrow> nat \<Rightarrow> Vector3d" where
  "edge_vector mRes i = vec_minus (mV mRes ! 0 ! edge_i1 mRes i) (mV mRes ! 0 ! edge_i0 mRes i)"

text \<open>
  The accesses of the loop body are unchecked. \<open>reads_inside\<close>: face \<open>i div 3\<close> is a
  column of \<^verbatim>\<open>mF\<close> and both endpoints are columns of \<^verbatim>\<open>mV[0]\<close>. \<open>writes_inside\<close>:
  level 0 of the four constraint fields has the two endpoints.
\<close>

definition reads_inside :: "'h Hierarchy \<Rightarrow> nat \<Rightarrow> bool" where
  "reads_inside mRes i =
     (i div 3 < length (mF mRes) div 3 \<and> mV mRes \<noteq> [] \<and>
      edge_i0 mRes i < length (mV mRes ! 0) \<and> edge_i1 mRes i < length (mV mRes ! 0))"

definition level0_has :: "'a list list \<Rightarrow> nat \<Rightarrow> bool" where
  "level0_has field_levels k = (field_levels \<noteq> [] \<and> k < length (field_levels ! 0))"

definition writes_inside :: "'h Hierarchy \<Rightarrow> nat \<Rightarrow> bool" where
  "writes_inside mRes i =
     (level0_has (mCO mRes) (edge_i0 mRes i) \<and> level0_has (mCO mRes) (edge_i1 mRes i) \<and>
      level0_has (mCQ mRes) (edge_i0 mRes i) \<and> level0_has (mCQ mRes) (edge_i1 mRes i) \<and>
      level0_has (mCQw mRes) (edge_i0 mRes i) \<and> level0_has (mCQw mRes) (edge_i1 mRes i) \<and>
      level0_has (mCOw mRes) (edge_i0 mRes i) \<and> level0_has (mCOw mRes) (edge_i1 mRes i))"

text \<open>Assignment to two columns (or entries) of level 0, in the order of the source.\<close>

definition set_level0 :: "'a list list \<Rightarrow> nat \<Rightarrow> 'a \<Rightarrow> nat \<Rightarrow> 'a \<Rightarrow> 'a list list" where
  "set_level0 field_levels i0 x0 i1 x1 = field_levels[0 := (field_levels ! 0)[i0 := x0, i1 := x1]]"

text \<open>The body of the loop over the half-edges (lines 138 to 155).\<close>

definition boundary_edge ::
  "nonzero_test \<Rightarrow> (Vector3d \<Rightarrow> Vector3d) \<Rightarrow> nat \<Rightarrow> 'h Hierarchy
     \<Rightarrow> failure + 'h Hierarchy" where
  "boundary_edge test nrm i mRes =
     (if \<not> i < length (mE2E mRes) then Inl undefined_behaviour
      else if mE2E mRes ! i \<noteq> - 1 then Inr mRes
      else if \<not> reads_inside mRes i then Inl undefined_behaviour
      else
        let i0 = edge_i0 mRes i;
            i1 = edge_i1 mRes i;
            p0 = mV mRes ! 0 ! i0;
            p1 = mV mRes ! 0 ! i1;
            edge = vec_minus p1 p0
        in if \<not> passes test edge then Inr mRes
           else if \<not> writes_inside mRes i then Inl undefined_behaviour
           else
             let edge = nrm edge
             in Inr (mRes\<lparr>mCO := set_level0 (mCO mRes) i0 p0 i1 p1,
                          mCQ := set_level0 (mCQ mRes) i0 edge i1 edge,
                          mCQw := set_level0 (mCQw mRes) i0 1 i1 1,
                          mCOw := set_level0 (mCOw mRes) i0 1 i1 1\<rparr>))"

fun for_edges ::
  "nonzero_test \<Rightarrow> (Vector3d \<Rightarrow> Vector3d) \<Rightarrow> nat list \<Rightarrow> 'h Hierarchy
     \<Rightarrow> failure + 'h Hierarchy" where
  "for_edges test nrm [] mRes = Inr mRes"
| "for_edges test nrm (i # rest) mRes =
     (case boundary_edge test nrm i mRes of
        Inl e \<Rightarrow> Inl e
      | Inr mRes' \<Rightarrow> for_edges test nrm rest mRes')"

text \<open>The loop \<^verbatim>\<open>for (uint32_t i = 0; i < 3 * mRes.mF.cols(); ++i)\<close>.\<close>

definition derive_boundary_constraints ::
  "nonzero_test \<Rightarrow> (Vector3d \<Rightarrow> Vector3d) \<Rightarrow> 'h Hierarchy \<Rightarrow> failure + 'h Hierarchy" where
  "derive_boundary_constraints test nrm mRes =
     for_edges test nrm [0..<3 * (length (mF mRes) div 3)] mRes"

definition preserve_boundary_stage ::
  "('h, 'p) solver \<Rightarrow> ('h, 'p) Parametrizer \<Rightarrow> ('h, 'p) Parametrizer traced" where
  "preserve_boundary_stage eng field =
     (if flag_preserve_boundary field \<noteq> 0 then
        bnd (enter Clear_constraints (clearConstraints eng (hierarchy field))) (\<lambda>mRes.
        bnd (enter Derive_boundary_constraints
               (derive_boundary_constraints (squaredNorm_positive eng) (normalize_vec eng) mRes))
          (\<lambda>mRes.
        bnd (enter Propagate_constraints (propagateConstraints eng mRes)) (\<lambda>mRes.
        ret (field\<lparr>hierarchy := mRes\<rparr>))))
      else ret field)"

subsection \<open>The pipeline \<^verbatim>\<open>run_quadriflow\<close>\<close>

text \<open>Lines 118 to 127: the fresh object, the flags that are requested, the seed.\<close>

definition apply_flags ::
  "('h, 'p) Parametrizer \<Rightarrow> cint \<Rightarrow> bool \<Rightarrow> bool \<Rightarrow> bool \<Rightarrow> bool \<Rightarrow> bool \<Rightarrow> ('h, 'p) Parametrizer" where
  "apply_flags field seed preserve_sharp preserve_boundary adaptive_scale aggressive_sat
       minimum_cost_flow =
     (let field = (if preserve_sharp then field\<lparr>flag_preserve_sharp := 1\<rparr> else field);
          field = (if preserve_boundary then field\<lparr>flag_preserve_boundary := 1\<rparr> else field);
          field = (if adaptive_scale then field\<lparr>flag_adaptive_scale := 1\<rparr> else field);
          field = (if aggressive_sat then field\<lparr>flag_aggresive_sat := 1\<rparr> else field);
          field = (if minimum_cost_flow then field\<lparr>flag_minimum_cost_flow := 1\<rparr> else field)
      in field\<lparr>hierarchy := (hierarchy field)\<lparr>rng_seed := seed\<rparr>\<rparr>)"

text \<open>Lines 161 to 170: from orientation optimisation to position optimisation.\<close>

definition optimize_fields ::
  "('h, 'p) solver \<Rightarrow> ('h, 'p) Parametrizer \<Rightarrow> ('h, 'p) Parametrizer traced" where
  "optimize_fields eng field =
     bnd (enter Optimize_orientations (optimize_orientations eng (hierarchy field))) (\<lambda>mRes.
     bnd (enter Compute_orientation_singularities
            (ComputeOrientationSingularities eng (field\<lparr>hierarchy := mRes\<rparr>))) (\<lambda>field.
     bnd (if flag_adaptive_scale field = 1
          then enter Estimate_slope (EstimateSlope eng field) else ret field) (\<lambda>field.
     bnd (enter (Optimize_scale (flag_adaptive_scale field))
            (optimize_scale eng (hierarchy field) (rho field) (flag_adaptive_scale field))) (\<lambda>scaled.
     let field = field\<lparr>hierarchy := fst scaled, rho := snd scaled\<rparr>;
         field = field\<lparr>flag_adaptive_scale := 1\<rparr>
     in bnd (enter (Optimize_positions (flag_adaptive_scale field))
               (optimize_positions eng (hierarchy field) (flag_adaptive_scale field))) (\<lambda>mRes.
        ret (field\<lparr>hierarchy := mRes\<rparr>))))))"

text \<open>Lines 171 to 173.\<close>

definition extract_quads ::
  "('h, 'p) solver \<Rightarrow> ('h, 'p) Parametrizer \<Rightarrow> ('h, 'p) Parametrizer traced" where
  "extract_quads eng field =
     bnd (enter Compute_position_singularities (ComputePositionSingularities eng field)) (\<lambda>field.
     enter Compute_index_map (ComputeIndexMap eng field))"

text \<open>Lines 118 to 173: every stage between the precondition checks and the output.\<close>

definition run_stages ::
  "('h, 'p) solver \<Rightarrow> real carray \<Rightarrow> cint \<Rightarrow> cint carray \<Rightarrow> cint \<Rightarrow> cint \<Rightarrow> cint
     \<Rightarrow> bool \<Rightarrow> bool \<Rightarrow> bool \<Rightarrow> bool \<Rightarrow> bool \<Rightarrow> ('h, 'p) Parametrizer traced" where
  "run_stages eng vertices' num_vertices' faces' num_faces' target_faces seed
       preserve_sharp preserve_boundary adaptive_scale aggressive_sat minimum_cost_flow =
     bnd (enter Apply_flags_and_seed
            (Inr (apply_flags (Parametrizer_new eng) seed preserve_sharp preserve_boundary
                    adaptive_scale aggressive_sat minimum_cost_flow))) (\<lambda>field.
     bnd (enter Load_and_normalize
            (LoadFromArrays eng field vertices' num_vertices' faces' num_faces')) (\<lambda>field.
     bnd (enter (Initialize_hierarchy target_faces) (Initialize eng field target_faces)) (\<lambda>field.
     bnd (preserve_boundary_stage eng field) (\<lambda>field.
     bnd (optimize_fields eng field) (\<lambda>field.
     extract_quads eng field)))))"

text \<open>\<^verbatim>\<open>struct QuadriFlowResult\<close> and lines 176 to 200, which fill it.\<close>

record QuadriFlowResult =
  vertices :: "real list"
  faces :: "cint list"
  num_vertices :: cint
  num_faces :: cint

definition output_vertex :: "('h, 'p) Parametrizer \<Rightarrow> nat \<Rightarrow> real list" where
  "output_vertex field i =
     (case vec_plus (vec_times (O_compact field ! i) (normalize_scale field))
             (normalize_offset field) of
        (tx, ty, tz) \<Rightarrow> [tx, ty, tz])"

definition output_face :: "('h, 'p) Parametrizer \<Rightarrow> nat \<Rightarrow> cint list" where
  "output_face field i = (case F_compact field ! i of (a, b, c, d) \<Rightarrow> [a, b, c, d])"

text \<open>
  The two counts are \<^verbatim>\<open>static_cast<int>\<close> of the sizes; a negative count makes
  \<^verbatim>\<open>resize\<close> throw.
\<close>

definition extract_output :: "('h, 'p) Parametrizer \<Rightarrow> failure + QuadriFlowResult" where
  "extract_output field =
     (let nv = (word_of_nat (length (O_compact field)) :: cint);
          nf = (word_of_nat (length (F_compact field)) :: cint)
      in if nv = 0 \<or> nf = 0 then Inl (runtime_error ''QuadriFlow produced an empty mesh'')
         else if sint nv < 0 \<or> sint nf < 0 then Inl length_error
         else Inr \<lparr>vertices = concat (map (output_vertex field) [0..<nat (sint nv)]),
                   faces = concat (map (output_face field) [0..<nat (sint nf)]),
                   num_vertices = nv,
                   num_faces = nf\<rparr>)"

definition run_quadriflow ::
  "('h, 'p) solver \<Rightarrow> real carray \<Rightarrow> cint \<Rightarrow> cint carray \<Rightarrow> cint \<Rightarrow> cint \<Rightarrow> cint
     \<Rightarrow> bool \<Rightarrow> bool \<Rightarrow> bool \<Rightarrow> bool \<Rightarrow> bool \<Rightarrow> QuadriFlowResult traced" where
  "run_quadriflow eng vertices' num_vertices' faces' num_faces' target_faces seed
       preserve_sharp preserve_boundary adaptive_scale aggressive_sat minimum_cost_flow =
     (if sint num_vertices' \<le> 0 \<or> sint num_faces' \<le> 0
      then ([], Inl (runtime_error ''Input mesh is empty''))
      else if sint target_faces \<le> 0
      then ([], Inl (runtime_error ''target_faces must be positive''))
      else bnd (run_stages eng vertices' num_vertices' faces' num_faces' target_faces seed
                  preserve_sharp preserve_boundary adaptive_scale aggressive_sat
                  minimum_cost_flow)
             (\<lambda>field. ([], extract_output field)))"

section \<open>Notions used in the statements\<close>

text \<open>The keys of all corners in the order in which the two nested loops visit them.\<close>

definition corner_keys :: "cint carray \<Rightarrow> nat \<Rightarrow> obj_vertex list" where
  "corner_keys face_indices n_faces = map (\<lambda>k. obj_vertex_of (face_indices k)) [0..<3 * n_faces]"

text \<open>
  The invariant of the deduplication loop after the corners with position indices \<open>ws\<close>:
  the vertices are the distinct keys met, the map sends each to its place, every emitted
  index points at the key of its corner, and a first reference gets the number of
  distinct indices met before it.
\<close>

definition dedup_inv :: "uint32 list \<Rightarrow> VertexMap \<times> uint32 list \<times> obj_vertex list \<Rightarrow> bool" where
  "dedup_inv ws s = (case s of (m, idx, vs) \<Rightarrow>
     distinct vs \<and> set vs = obj_vertex_of ` set ws \<and>
     (\<forall>j<length vs. m (vs ! j) = Some (word_of_nat j)) \<and>
     (\<forall>v. v \<notin> set vs \<longrightarrow> m v = None) \<and>
     length idx = length ws \<and>
     (\<forall>a<length ws. unat (idx ! a) < length vs \<and> vs ! unat (idx ! a) = obj_vertex_of (ws ! a)) \<and>
     (\<forall>a<length ws. ws ! a \<notin> set (take a ws) \<longrightarrow> unat (idx ! a) = card (set (take a ws))))"




text \<open>The loop reads \<^verbatim>\<open>mF\<close>, \<^verbatim>\<open>mE2E\<close> and \<^verbatim>\<open>mV\<close> and never writes them.\<close>

definition same_mesh :: "'h Hierarchy \<Rightarrow> 'h Hierarchy \<Rightarrow> bool" where
  "same_mesh a b = (mF a = mF b \<and> mE2E a = mE2E b \<and> mV a = mV b)"

text \<open>
  For the sample solver: Eigen's \<^verbatim>\<open>normalize()\<close> on a vector of positive length, the
  comparison computed without rounding, and a comparison in which squared lengths below
  \<open>2^-1074\<close>, the smallest positive double, have become 0.
\<close>

definition sample_normalize :: "Vector3d \<Rightarrow> Vector3d" where
  "sample_normalize v = vec_times v (1 / sqrt (squaredNorm v))"

definition exact_test :: nonzero_test where
  "exact_test = Abs_nonzero_test (\<lambda>e. 0 < squaredNorm e)"

definition underflow_test :: nonzero_test where
  "underflow_test = Abs_nonzero_test (\<lambda>e. 1 \<le> squaredNorm e * 2 ^ 1074)"

text \<open>
  A small solver on which the pipeline can be run: hierarchy initialisation takes the
  compact mesh as the finest level and marks every half-edge as having no opposite,
  clearing sets all constraints of every level to zero, the index map returns the input
  vertices with one quad, and the optimisation stages leave their object as it is.
\<close>

definition sample_object :: "(unit, unit) Parametrizer" where
  "sample_object =
     \<lparr>flag_preserve_sharp = 0, flag_preserve_boundary = 0, flag_adaptive_scale = 0,
      flag_aggresive_sat = 0, flag_minimum_cost_flow = 0,
      hierarchy = \<lparr>rng_seed = 0, mF = [], mE2E = [], mV = [], mCO = [], mCQ = [],
                   mCQw = [], mCOw = [], h_internal = ()\<rparr>,
      rho = [], V = [], F = [], O_compact = [], F_compact = [],
      normalize_scale = 1, normalize_offset = (0, 0, 0), p_internal = ()\<rparr>"

definition sample_clear :: "unit Hierarchy \<Rightarrow> unit Hierarchy" where
  "sample_clear mRes =
     mRes\<lparr>mCO := map (map (\<lambda>_. (0, 0, 0))) (mV mRes),
          mCQ := map (map (\<lambda>_. (0, 0, 0))) (mV mRes),
          mCQw := map (map (\<lambda>_. 0)) (mV mRes),
          mCOw := map (map (\<lambda>_. 0)) (mV mRes)\<rparr>"

definition sample_initialize :: "(unit, unit) Parametrizer \<Rightarrow> (unit, unit) Parametrizer" where
  "sample_initialize field =
     field\<lparr>hierarchy := (hierarchy field)\<lparr>mF := F field,
                                           mE2E := map (\<lambda>_. - 1) (F field),
                                           mV := [V field]\<rparr>\<rparr>"

definition sample_solver :: "(unit, unit) solver" where
  "sample_solver =
     \<lparr>Parametrizer_new = sample_object,
      normalize_vec = sample_normalize,
      squaredNorm_positive = exact_test,
      NormalizeMesh = (\<lambda>field. Inr (field\<lparr>normalize_scale := 2, normalize_offset := (1, 0, 0)\<rparr>)),
      Initialize = (\<lambda>field target. Inr (sample_initialize field)),
      clearConstraints = (\<lambda>mRes. Inr (sample_clear mRes)),
      propagateConstraints = Inr,
      optimize_orientations = Inr,
      ComputeOrientationSingularities = Inr,
      EstimateSlope = Inr,
      optimize_scale = (\<lambda>mRes r adaptive. Inr (mRes, r)),
      optimize_positions = (\<lambda>mRes adaptive. Inr mRes),
      ComputePositionSingularities = Inr,
      ComputeIndexMap = (\<lambda>field. Inr (field\<lparr>O_compact := V field, F_compact := [(0, 1, 2, 0)]\<rparr>))\<rparr>"

text \<open>One triangle with corners \<open>(0,0,0)\<close>, \<open>(1,0,0)\<close>, \<open>(0,1,0)\<close>.\<close>

definition triangle_verts :: "real carray" where
  "triangle_verts = (\<lambda>k. [0, 0, 0, 1, 0, 0, 0, 1, 0] ! k)"

definition triangle_faces :: "cint carray" where
  "triangle_faces = (\<lambda>k. [0, 1, 2] ! k)"

text \<open>
  A square with corners \<open>(0,0,0)\<close>, \<open>(1,0,0)\<close>, \<open>(1,1,0)\<close>, \<open>(0,1,0)\<close> and the two
  triangles \<open>3 0 1\<close> and \<open>1 2 3\<close>, which share the vertices 1 and 3.
\<close>

definition square_verts :: "real carray" where
  "square_verts = (\<lambda>k. [0, 0, 0, 1, 0, 0, 1, 1, 0, 0, 1, 0] ! k)"

definition square_faces :: "cint carray" where
  "square_faces = (\<lambda>k. [3, 0, 1, 1, 2, 3] ! k)"

text \<open>
  The hierarchy of the triangle after initialisation and clearing by the sample solver,
  the same with the third corner moved to \<open>(0,2^-600,0)\<close>, before and after the loop
  over its half-edges in an arithmetic where the squared length of the short edge has
  become 0, and the hierarchy of a degenerate face: one vertex, referenced by all three
  corners.
\<close>

definition triangle_mRes :: "unit Hierarchy" where
  "triangle_mRes =
     \<lparr>rng_seed = 0, mF = [0, 1, 2], mE2E = [- 1, - 1, - 1],
      mV = [[(0, 0, 0), (1, 0, 0), (0, 1, 0)]],
      mCO = [[(0, 0, 0), (0, 0, 0), (0, 0, 0)]],
      mCQ = [[(0, 0, 0), (0, 0, 0), (0, 0, 0)]],
      mCQw = [[0, 0, 0]], mCOw = [[0, 0, 0]], h_internal = ()\<rparr>"

definition triangle_constrained :: "unit Hierarchy" where
  "triangle_constrained =
     triangle_mRes
       \<lparr>mCO := [[(0, 0, 0), (1, 0, 0), (0, 1, 0)]],
        mCQ := [[sample_normalize (0, - 1, 0), sample_normalize (- 1, 1, 0),
                 sample_normalize (0, - 1, 0)]],
        mCQw := [[1, 1, 1]], mCOw := [[1, 1, 1]]\<rparr>"

definition sliver_mRes :: "unit Hierarchy" where
  "sliver_mRes = triangle_mRes\<lparr>mV := [[(0, 0, 0), (1, 0, 0), (0, 1 / 2 ^ 600, 0)]]\<rparr>"


definition point_mRes :: "unit Hierarchy" where
  "point_mRes =
     \<lparr>rng_seed = 0, mF = [0, 0, 0], mE2E = [- 1, - 1, - 1],
      mV = [[(0, 0, 0)]], mCO = [[(0, 0, 0)]], mCQ = [[(0, 0, 0)]],
      mCQw = [[0]], mCOw = [[0]], h_internal = ()\<rparr>"

text \<open>
  The order of the stages as the specification lists it, for a requested target face
  count and the two flags that gate stages: boundary preservation adds the three
  constraint stages, the adaptive-scale flag adds slope estimation and is the value
  scale optimisation receives; position optimisation receives 1.
\<close>

definition spec_stage_order :: "cint \<Rightarrow> bool \<Rightarrow> bool \<Rightarrow> stage list" where
  "spec_stage_order target_faces preserve_boundary adaptive_scale =
     [Apply_flags_and_seed, Load_and_normalize, Initialize_hierarchy target_faces] @
     (if preserve_boundary
      then [Clear_constraints, Derive_boundary_constraints, Propagate_constraints] else []) @
     [Optimize_orientations, Compute_orientation_singularities] @
     (if adaptive_scale then [Estimate_slope] else []) @
     [Optimize_scale (if adaptive_scale then 1 else 0), Optimize_positions 1,
      Compute_position_singularities, Compute_index_map]"

text \<open>
  A run follows an order when the stages it has entered are an initial part of it, and
  all of it if the run returns a value.
\<close>

definition follows :: "'a traced \<Rightarrow> stage list \<Rightarrow> bool" where
  "follows m order = (prefix (fst m) order \<and> (\<forall>x. snd m = Inr x \<longrightarrow> fst m = order))"

text \<open>
  What the pipeline relies on in the library. The flags are configuration: the member
  functions called before a flag is tested return the object with the boundary and the
  adaptive-scale flag as they found them; and in a default-constructed object both are 0.
\<close>

definition keeps_flags ::
  "(('h, 'p) Parametrizer \<Rightarrow> failure + ('h, 'p) Parametrizer) \<Rightarrow> bool" where
  "keeps_flags f =
     (\<forall>x y. f x = Inr y \<longrightarrow>
        flag_preserve_boundary y = flag_preserve_boundary x \<and>
        flag_adaptive_scale y = flag_adaptive_scale x)"

definition solver_keeps_flags :: "('h, 'p) solver \<Rightarrow> bool" where
  "solver_keeps_flags eng =
     (keeps_flags (NormalizeMesh eng) \<and>
      (\<forall>target. keeps_flags (\<lambda>field. Initialize eng field target)) \<and>
      keeps_flags (ComputeOrientationSingularities eng) \<and>
      keeps_flags (EstimateSlope eng))"

definition fresh_flags_clear :: "('h, 'p) solver \<Rightarrow> bool" where
  "fresh_flags_clear eng =
     (flag_preserve_boundary (Parametrizer_new eng) = 0 \<and>
      flag_adaptive_scale (Parametrizer_new eng) = 0)"

text \<open>
  The outcome of a sequence of calls without the record of the stages: a failure ends
  the sequence, a value is handed to the next call. \<open>on_hierarchy\<close> is a routine of the
  hierarchy called on the hierarchy of the pipeline object.
\<close>

definition then_do :: "failure + 'a \<Rightarrow> ('a \<Rightarrow> failure + 'b) \<Rightarrow> failure + 'b" where
  "then_do r f = (case r of Inl e \<Rightarrow> Inl e | Inr x \<Rightarrow> f x)"

definition on_hierarchy ::
  "('h Hierarchy \<Rightarrow> failure + 'h Hierarchy) \<Rightarrow> ('h, 'p) Parametrizer
     \<Rightarrow> failure + ('h, 'p) Parametrizer" where
  "on_hierarchy f field =
     then_do (f (hierarchy field)) (\<lambda>mRes. Inr (field\<lparr>hierarchy := mRes\<rparr>))"

text \<open>
  The pipeline as section 4.3 of the specification words it: the twelve steps in their
  order, each the call it names on the pipeline object, and \<open>spec_run\<close>, which starts
  from the default-constructed object and performs them one after the other. Steps 4 and
  7 depend on what the caller requested (step 4 is the clearing, the loop and the
  propagation of section 4.2); step 8 honours and step 10 uses the flag of the object,
  which step 9 has forced.
\<close>

definition spec_steps ::
  "('h, 'p) solver \<Rightarrow> real carray \<Rightarrow> cint \<Rightarrow> cint carray \<Rightarrow> cint \<Rightarrow> cint \<Rightarrow> cint
     \<Rightarrow> bool \<Rightarrow> bool \<Rightarrow> bool \<Rightarrow> bool \<Rightarrow> bool
     \<Rightarrow> (('h, 'p) Parametrizer \<Rightarrow> failure + ('h, 'p) Parametrizer) list" where
  "spec_steps eng vertices' num_vertices' faces' num_faces' target_faces seed
       preserve_sharp preserve_boundary adaptive_scale aggressive_sat minimum_cost_flow =
     [\<lambda>field. Inr (apply_flags field seed preserve_sharp preserve_boundary adaptive_scale
                      aggressive_sat minimum_cost_flow),
      \<lambda>field. LoadFromArrays eng field vertices' num_vertices' faces' num_faces',
      \<lambda>field. Initialize eng field target_faces] @
     (if preserve_boundary
      then [on_hierarchy (clearConstraints eng),
            on_hierarchy (derive_boundary_constraints (squaredNorm_positive eng)
                            (normalize_vec eng)),
            on_hierarchy (propagateConstraints eng)]
      else []) @
     [on_hierarchy (optimize_orientations eng),
      ComputeOrientationSingularities eng] @
     (if adaptive_scale then [EstimateSlope eng] else []) @
     [\<lambda>field. then_do (optimize_scale eng (hierarchy field) (rho field)
                        (flag_adaptive_scale field))
                (\<lambda>scaled. Inr (field\<lparr>hierarchy := fst scaled, rho := snd scaled\<rparr>)),
      \<lambda>field. Inr (field\<lparr>flag_adaptive_scale := 1\<rparr>),
      \<lambda>field. on_hierarchy (\<lambda>mRes. optimize_positions eng mRes (flag_adaptive_scale field))
                field,
      ComputePositionSingularities eng,
      ComputeIndexMap eng]"

definition spec_run ::
  "('h, 'p) solver \<Rightarrow> real carray \<Rightarrow> cint \<Rightarrow> cint carray \<Rightarrow> cint \<Rightarrow> cint \<Rightarrow> cint
     \<Rightarrow> bool \<Rightarrow> bool \<Rightarrow> bool \<Rightarrow> bool \<Rightarrow> bool \<Rightarrow> failure + ('h, 'p) Parametrizer" where
  "spec_run eng vertices' num_vertices' faces' num_faces' target_faces seed
       preserve_sharp preserve_boundary adaptive_scale aggressive_sat minimum_cost_flow =
     foldl then_do (Inr (Parametrizer_new eng))
       (spec_steps eng vertices' num_vertices' faces' num_faces' target_faces seed
          preserve_sharp preserve_boundary adaptive_scale aggressive_sat minimum_cost_flow)"




text \<open>
  The sample solver with an index map that shows which adaptive-scale flag it finds in
  its object: the one output vertex has first coordinate 1 if the flag is 1, else 0. And
  the sample solver with an index map that produces nothing.
\<close>

definition flag_probe_solver :: "(unit, unit) solver" where
  "flag_probe_solver =
     sample_solver\<lparr>ComputeIndexMap :=
       (\<lambda>field. Inr (field\<lparr>O_compact := [(if flag_adaptive_scale field = 1 then 1 else 0, 0, 0)],
                            F_compact := [(0, 0, 0, 0)]\<rparr>))\<rparr>"

definition barren_solver :: "(unit, unit) solver" where
  "barren_solver = sample_solver\<lparr>ComputeIndexMap := Inr\<rparr>"


text \<open>A face array whose last corner references vertex 5 of a mesh of 3 vertices.\<close>

definition stray_faces :: "cint carray" where
  "stray_faces = (\<lambda>k. [0, 1, 5] ! k)"

text \<open>The object of the sample solver after all stages of the triangle run.\<close>

definition triangle_final :: "(unit, unit) Parametrizer" where
  "triangle_final =
     sample_object
       \<lparr>flag_preserve_boundary := 1, flag_adaptive_scale := 1,
        hierarchy := triangle_constrained,
        V := [(0, 0, 0), (1, 0, 0), (0, 1, 0)], F := [0, 1, 2],
        O_compact := [(0, 0, 0), (1, 0, 0), (0, 1, 0)], F_compact := [(0, 1, 2, 0)],
        normalize_scale := 2, normalize_offset := (1, 0, 0)\<rparr>"

text \<open>The triangle run of the sample solver whose index map produces nothing.\<close>

definition triangle_barren :: "(unit, unit) Parametrizer" where
  "triangle_barren = triangle_final\<lparr>O_compact := [], F_compact := []\<rparr>"

text \<open>The flat output of a vertex in the caller's coordinates, and of a quad.\<close>

definition denormalized :: "real \<Rightarrow> Vector3d \<Rightarrow> Vector3d \<Rightarrow> real list" where
  "denormalized scale offset position =
     (case vec_plus (vec_times position scale) offset of (tx, ty, tz) \<Rightarrow> [tx, ty, tz])"

definition quad_indices :: "Vector4i \<Rightarrow> cint list" where
  "quad_indices q = (case q of (a, b, c, d) \<Rightarrow> [a, b, c, d])"

section \<open>Properties of mesh ingestion\<close>

lemma face_loop_flat:
  "face_loop face_indices n = foldl visit_corner (Map.empty, [], []) (corner_keys face_indices n)"
proof (induction n)
  case 0
  show ?case by (simp add: face_loop_def corner_keys_def)
next
  case (Suc n)
  have "[0..<3 * n + 3] = [0..<3 * n] @ [3 * n..<3 * n + 3]"
    by (rule upt_add_eq_append) simp
  moreover have "[3 * n..<3 * n + 3] = [n * 3, n * 3 + 1, n * 3 + 2]"
    by (simp add: upt_conv_Cons mult.commute)
  moreover have "3 * Suc n = 3 * n + 3"
    by simp
  ultimately have split: "[0..<3 * Suc n] = [0..<3 * n] @ [n * 3, n * 3 + 1, n * 3 + 2]"
    by (simp only:)
  have "face_loop face_indices (Suc n)
          = foldl visit_corner (face_loop face_indices n) (tri face_indices n)"
    by (simp add: face_loop_def)
  also have "\<dots> = foldl visit_corner (Map.empty, [], [])
                    (corner_keys face_indices n @ tri face_indices n)"
    by (simp add: Suc.IH)
  also have "corner_keys face_indices n @ tri face_indices n = corner_keys face_indices (Suc n)"
    unfolding corner_keys_def split by (simp add: tri_def)
  finally show ?case .
qed

lemma inj_obj_vertex_of: "inj obj_vertex_of"
  by (rule injI) (simp add: obj_vertex_of_def)

lemma card_words_le: "card (set (ws :: uint32 list)) \<le> 2 ^ 32"
proof -
  have "card (set ws) \<le> card (UNIV :: uint32 set)"
    by (rule card_mono) simp_all
  then show ?thesis by (simp add: card_word)
qed

lemma card_words_less: "w \<notin> set (ws :: uint32 list) \<Longrightarrow> card (set ws) < 2 ^ 32"
proof -
  assume "w \<notin> set ws"
  then have "set ws \<subset> UNIV" by blast
  then have "card (set ws) < card (UNIV :: uint32 set)"
    by (rule psubset_card_mono [rotated]) simp
  then show ?thesis by (simp add: card_word)
qed

lemma dedup_inv_length:
  assumes "dedup_inv ws (m, idx, vs)"
  shows "length vs = card (set ws)"
proof -
  from assms have d: "distinct vs" and s: "set vs = obj_vertex_of ` set ws"
    by (simp_all add: dedup_inv_def)
  have "length vs = card (set vs)" using d by (simp add: distinct_card)
  also have "\<dots> = card (set ws)" unfolding s
    by (rule card_image) (rule inj_on_subset [OF inj_obj_vertex_of], simp)
  finally show ?thesis .
qed

lemma unat_index: "n < 2 ^ 32 \<Longrightarrow> unat (word_of_nat n :: uint32) = n"
  by (simp add: unat_of_nat)

lemma dedup_inv_step:
  assumes inv: "dedup_inv ws s"
  shows "dedup_inv (ws @ [w]) (visit_corner s (obj_vertex_of w))"
proof -
  obtain m idx vs where s: "s = (m, idx, vs)" by (cases s)
  from inv s have d: "distinct vs" and sv: "set vs = obj_vertex_of ` set ws"
    and mj: "\<forall>j<length vs. m (vs ! j) = Some (word_of_nat j)"
    and mn: "\<forall>v. v \<notin> set vs \<longrightarrow> m v = None"
    and li: "length idx = length ws"
    and ia: "\<forall>a<length ws. unat (idx ! a) < length vs \<and> vs ! unat (idx ! a) = obj_vertex_of (ws ! a)"
    and fa: "\<forall>a<length ws. ws ! a \<notin> set (take a ws) \<longrightarrow> unat (idx ! a) = card (set (take a ws))"
    by (simp_all add: dedup_inv_def)
  have len: "length vs = card (set ws)" using inv s dedup_inv_length by blast
  show ?thesis
  proof (cases "w \<in> set ws")
    case True
    then have "obj_vertex_of w \<in> set vs" using sv by blast
    then obtain j where j: "j < length vs" "vs ! j = obj_vertex_of w"
      by (auto simp: in_set_conv_nth)
    have mk: "m (obj_vertex_of w) = Some (word_of_nat j)" using mj j by auto
    have "j < 2 ^ 32" using j(1) len card_words_le [of ws] by simp
    then have uj: "unat (word_of_nat j :: uint32) = j" by (rule unat_index)
    have res: "visit_corner s (obj_vertex_of w) = (m, idx @ [word_of_nat j], vs)"
      by (simp add: s mk)
    have sv': "set vs = obj_vertex_of ` set (ws @ [w])" using sv True by auto
    have ia': "\<forall>a<length (ws @ [w]). unat ((idx @ [word_of_nat j]) ! a) < length vs \<and>
                 vs ! unat ((idx @ [word_of_nat j]) ! a) = obj_vertex_of ((ws @ [w]) ! a)"
      using ia li j uj by (auto simp: nth_append less_Suc_eq)
    have fa': "\<forall>a<length (ws @ [w]). (ws @ [w]) ! a \<notin> set (take a (ws @ [w])) \<longrightarrow>
                 unat ((idx @ [word_of_nat j]) ! a) = card (set (take a (ws @ [w])))"
      using fa li True by (auto simp: nth_append less_Suc_eq)
    show ?thesis unfolding res dedup_inv_def using d sv' mj mn li ia' fa' by simp
  next
    case False
    then have nv: "obj_vertex_of w \<notin> set vs"
      using sv inj_obj_vertex_of by (auto dest: injD)
    have mk: "m (obj_vertex_of w) = None" using mn nv by simp
    have "length vs < 2 ^ 32" using len card_words_less [OF False] by simp
    then have ul: "unat (word_of_nat (length vs) :: uint32) = length vs" by (rule unat_index)
    let ?k = "word_of_nat (length vs) :: uint32"
    have res: "visit_corner s (obj_vertex_of w)
                 = (m(obj_vertex_of w \<mapsto> ?k), idx @ [?k], vs @ [obj_vertex_of w])"
      by (simp add: s mk)
    have d': "distinct (vs @ [obj_vertex_of w])" using d nv by simp
    have sv': "set (vs @ [obj_vertex_of w]) = obj_vertex_of ` set (ws @ [w])" using sv by auto
    have mj': "\<forall>j<length (vs @ [obj_vertex_of w]).
                 (m(obj_vertex_of w \<mapsto> ?k)) ((vs @ [obj_vertex_of w]) ! j) = Some (word_of_nat j)"
      using mj nv by (auto simp: nth_append less_Suc_eq dest: nth_mem)
    have mn': "\<forall>v. v \<notin> set (vs @ [obj_vertex_of w]) \<longrightarrow> (m(obj_vertex_of w \<mapsto> ?k)) v = None"
      using mn by auto
    have ia': "\<forall>a<length (ws @ [w]). unat ((idx @ [?k]) ! a) < length (vs @ [obj_vertex_of w]) \<and>
                 (vs @ [obj_vertex_of w]) ! unat ((idx @ [?k]) ! a) = obj_vertex_of ((ws @ [w]) ! a)"
      using ia li ul by (auto simp: nth_append less_Suc_eq)
    have fa': "\<forall>a<length (ws @ [w]). (ws @ [w]) ! a \<notin> set (take a (ws @ [w])) \<longrightarrow>
                 unat ((idx @ [?k]) ! a) = card (set (take a (ws @ [w])))"
      using fa li ul len by (auto simp: nth_append less_Suc_eq)
    show ?thesis unfolding res dedup_inv_def using d' sv' mj' mn' li ia' fa' by simp
  qed
qed

lemma dedup_inv_foldl:
  "dedup_inv ws (foldl visit_corner (Map.empty, [], []) (map obj_vertex_of ws))"
proof (induction ws rule: rev_induct)
  case Nil
  show ?case by (simp add: dedup_inv_def)
next
  case (snoc w ws)
  then show ?case using dedup_inv_step [of ws _ w] by simp
qed

subsection \<open>Reading an \<^verbatim>\<open>int\<close> as an index\<close>

lemma sint_small:
  fixes w :: cint
  assumes "uint w < 2147483648"
  shows "sint w = uint w"
proof -
  have "0 \<le> uint w" by simp
  moreover have "- (2 ^ 31) \<le> (0::int)" by simp
  ultimately have "- (2 ^ 31) \<le> uint w" by (rule order_trans [rotated])
  moreover have "uint w < 2 ^ 31" using assms by simp
  ultimately have "signed_take_bit 31 (uint w) = uint w"
    by (rule signed_take_bit_int_eq_self)
  then show ?thesis by (simp add: sint_uint)
qed

lemma sint_large:
  fixes w :: cint
  assumes "2147483648 \<le> uint w"
  shows "sint w < 0"
proof -
  have "(2::int) ^ 31 \<le> uint w" using assms by simp
  then have "signed_take_bit 31 (uint w) \<le> uint w - 2 ^ Suc 31"
    by (rule signed_take_bit_int_less_eq)
  then have "sint w \<le> uint w - 2 ^ Suc 31" by (simp add: sint_uint)
  moreover have "uint w < 2 ^ Suc 31" using uint_bounded [of w] by simp
  ultimately show ?thesis by linarith
qed

lemma cint_index:
  fixes w n :: cint
  assumes "0 \<le> sint n"
  shows "unat w < nat (sint n) \<longleftrightarrow> 0 \<le> sint w \<and> sint w < sint n"
proof (cases "uint w < 2147483648")
  case True
  then have "sint w = uint w" by (rule sint_small)
  moreover have "uint w = int (unat w)" by simp
  ultimately show ?thesis using assms by linarith
next
  case False
  then have neg: "sint w < 0" using sint_large [of w] by simp
  have "sint n < 2 ^ 31" using sint_lt [of n] by simp
  then have "sint n < 2147483648" by simp
  moreover have "uint w = int (unat w)" by simp
  ultimately have "\<not> unat w < nat (sint n)" using False by linarith
  then show ?thesis using neg by simp
qed

subsection \<open>What the loops of \<^verbatim>\<open>LoadFromArrays\<close> compute\<close>

lemma face_loop_inv: "dedup_inv (map face_indices [0..<3 * n]) (face_loop face_indices n)"
  using dedup_inv_foldl [of "map face_indices [0..<3 * n]"]
  by (simp add: face_loop_flat corner_keys_def comp_def)

lemma set_take_corners: "a \<le> m \<Longrightarrow> set (take a (map f [0..<m])) = f ` {0..<a}"
  by (simp add: take_map)

lemma fill_V_ok:
  "\<forall>v\<in>set vs. unat (vp v) < length positions
     \<Longrightarrow> fill_V positions vs = Inr (map (\<lambda>v. positions ! unat (vp v)) vs)"
  by (induction vs) (simp_all add: vector_at_def)

lemma fill_V_fail:
  "\<exists>v\<in>set vs. \<not> unat (vp v) < length positions \<Longrightarrow> fill_V positions vs = Inl out_of_range"
proof (induction vs)
  case Nil
  then show ?case by simp
next
  case (Cons v vs)
  show ?case
  proof (cases "unat (vp v) < length positions")
    case True
    with Cons.prems have "\<exists>v\<in>set vs. \<not> unat (vp v) < length positions" by simp
    then have "fill_V positions vs = Inl out_of_range" by (rule Cons.IH)
    with True show ?thesis by (simp add: vector_at_def)
  next
    case False
    then show ?thesis by (simp add: vector_at_def)
  qed
qed

lemma length_read_positions [simp]: "length (read_positions verts n) = n"
  by (simp add: read_positions_def)

lemma load_result:
  assumes loop: "face_loop f (nat (sint nf)) = (m, idx, vs)" and nv: "0 \<le> sint nv"
  shows "LoadFromArrays_compact verts nv f nf =
           (if \<forall>v\<in>set vs. unat (vp v) < nat (sint nv)
            then Inr (map (\<lambda>v. read_positions verts (nat (sint nv)) ! unat (vp v)) vs, idx)
            else Inl out_of_range)"
proof (cases "\<forall>v\<in>set vs. unat (vp v) < nat (sint nv)")
  case True
  then have "fill_V (read_positions verts (nat (sint nv))) vs
               = Inr (map (\<lambda>v. read_positions verts (nat (sint nv)) ! unat (vp v)) vs)"
    by (intro fill_V_ok) simp
  then show ?thesis using True nv loop by (simp add: LoadFromArrays_compact_def)
next
  case False
  then have "fill_V (read_positions verts (nat (sint nv))) vs = Inl out_of_range"
    by (intro fill_V_fail) simp
  then show ?thesis using False nv loop by (simp add: LoadFromArrays_compact_def)
qed

lemma load_Inr:
  assumes res: "LoadFromArrays_compact verts nv f nf = Inr (cols, fdata)"
    and loop: "face_loop f (nat (sint nf)) = (m, idx, vs)"
  shows "0 \<le> sint nv \<and> fdata = idx \<and> length cols = length vs \<and>
         (\<forall>v\<in>set vs. unat (vp v) < nat (sint nv)) \<and>
         cols = map (\<lambda>v. read_positions verts (nat (sint nv)) ! unat (vp v)) vs"
proof -
  have nv: "0 \<le> sint nv" using res by (auto simp: LoadFromArrays_compact_def split: if_splits)
  show ?thesis using res load_result [OF loop nv, of verts] nv by (auto split: if_splits)
qed

lemma vp_vertices:
  assumes "dedup_inv ws (m, idx, vs)"
  shows "vp ` set vs = set ws"
proof -
  from assms have "set vs = obj_vertex_of ` set ws" by (simp add: dedup_inv_def)
  then show ?thesis by (force simp: obj_vertex_of_def image_iff)
qed

lemma distinct_vp_vertices:
  assumes "dedup_inv ws (m, idx, vs)"
  shows "distinct (map vp vs)"
proof -
  from assms have d: "distinct vs" and s: "set vs = obj_vertex_of ` set ws"
    by (simp_all add: dedup_inv_def)
  have "inj_on vp (set vs)" unfolding s
    by (rule inj_onI) (auto simp: obj_vertex_of_def)
  with d show ?thesis by (simp add: distinct_map)
qed

lemma valid_index:
  fixes w n :: cint
  assumes "0 \<le> sint n" "0 \<le> sint w" "sint w < sint n"
  shows "unat w < nat (sint n)"
  using cint_index [OF assms(1), of w] assms by simp

lemma invalid_index:
  fixes w n :: cint
  assumes "0 \<le> sint n" "sint w < 0 \<or> sint n \<le> sint w"
  shows "\<not> unat w < nat (sint n)"
  using cint_index [OF assms(1), of w] assms by auto

text \<open>On indices inside the vertex array every checked access succeeds.\<close>

lemma load_returns:
  assumes nv: "0 \<le> sint n_verts"
    and valid: "\<forall>k<3 * nat (sint n_faces).
                  0 \<le> sint (face_indices k) \<and> sint (face_indices k) < sint n_verts"
  shows "\<exists>cols fdata.
           LoadFromArrays_compact verts n_verts face_indices n_faces = Inr (cols, fdata)"
proof -
  define n where "n = nat (sint n_faces)"
  define ws where "ws = map face_indices [0..<3 * n]"
  obtain m idx vs where loop: "face_loop face_indices n = (m, idx, vs)"
    by (cases "face_loop face_indices n")
  have inv: "dedup_inv ws (m, idx, vs)"
    using face_loop_inv [of face_indices n] by (simp add: loop ws_def)
  have sw: "set ws = face_indices ` {0..<3 * n}" by (simp add: ws_def)
  have vps: "vp ` set vs = set ws" using inv by (rule vp_vertices)
  have inside: "\<forall>v\<in>set vs. unat (vp v) < nat (sint n_verts)"
  proof
    fix v assume "v \<in> set vs"
    then have "vp v \<in> face_indices ` {0..<3 * n}" using vps sw by blast
    then obtain k where "k < 3 * n" "vp v = face_indices k" by auto
    then show "unat (vp v) < nat (sint n_verts)"
      using valid nv by (simp add: n_def valid_index)
  qed
  show ?thesis
    using load_result [OF loop [unfolded n_def] nv, of verts] inside by simp
qed

text \<open>
  Claim C3. For \<open>N = n_verts\<close> positions (\<open>N\<close> not negative) and faces whose
  indices all lie in \<open>[0, N)\<close>, mesh ingestion returns. And whenever it returns, the
  face-index array \<open>fdata\<close> it stores in \<^verbatim>\<open>F\<close> has one entry per corner, and two
  corners (of the same face or of different faces) get the same compact index exactly
  when they reference the same input index. The compact indices are dense and
  zero-based: they are exactly the numbers below the number of compact vertices, and
  each one points at the position of the input index it stands for. They are assigned in
  first-reference order: a corner that is the first to reference its input index gets
  the number of distinct input indices referenced before it, so that the indices of
  first references increase along the iteration.
\<close>

theorem LoadFromArrays_dedup_dense_first_reference:
  "(0 \<le> sint n_verts \<and>
    (\<forall>k<3 * nat (sint n_faces).
       0 \<le> sint (face_indices k) \<and> sint (face_indices k) < sint n_verts)
      \<longrightarrow> (\<exists>cols fdata.
             LoadFromArrays_compact verts n_verts face_indices n_faces = Inr (cols, fdata))) \<and>
   (\<forall>cols fdata.
      LoadFromArrays_compact verts n_verts face_indices n_faces = Inr (cols, fdata) \<longrightarrow>
        length fdata = 3 * nat (sint n_faces) \<and>
        (\<forall>a<3 * nat (sint n_faces). \<forall>b<3 * nat (sint n_faces).
           face_indices a = face_indices b \<longleftrightarrow> fdata ! a = fdata ! b) \<and>
        unat ` set fdata = {0..<length cols} \<and>
        (\<forall>a<3 * nat (sint n_faces).
           cols ! unat (fdata ! a)
             = read_positions verts (nat (sint n_verts)) ! unat (face_indices a)) \<and>
        (\<forall>a<3 * nat (sint n_faces). face_indices a \<notin> face_indices ` {0..<a} \<longrightarrow>
           unat (fdata ! a) = card (face_indices ` {0..<a})) \<and>
        (\<forall>a<3 * nat (sint n_faces). \<forall>b<3 * nat (sint n_faces).
           a < b \<and> face_indices a \<notin> face_indices ` {0..<a} \<and>
           face_indices b \<notin> face_indices ` {0..<b}
             \<longrightarrow> fdata ! a < fdata ! b))"
proof (rule conjI; intro allI impI)
  assume "0 \<le> sint n_verts \<and>
    (\<forall>k<3 * nat (sint n_faces).
       0 \<le> sint (face_indices k) \<and> sint (face_indices k) < sint n_verts)"
  then show "\<exists>cols fdata.
      LoadFromArrays_compact verts n_verts face_indices n_faces = Inr (cols, fdata)"
    using load_returns [of n_verts n_faces face_indices verts] by blast
next
  fix cols fdata
  assume res: "LoadFromArrays_compact verts n_verts face_indices n_faces = Inr (cols, fdata)"
  define n where "n = nat (sint n_faces)"
  define ws where "ws = map face_indices [0..<3 * n]"
  obtain m idx vs where loop: "face_loop face_indices n = (m, idx, vs)"
    by (cases "face_loop face_indices n")
  have inv: "dedup_inv ws (m, idx, vs)"
    using face_loop_inv [of face_indices n] by (simp add: loop ws_def)
  from load_Inr [OF res loop [unfolded n_def]]
  have fd: "fdata = idx" and lc: "length cols = length vs"
    and cols: "cols = map (\<lambda>v. read_positions verts (nat (sint n_verts)) ! unat (vp v)) vs"
    by simp_all
  have lw: "length ws = 3 * n" by (simp add: ws_def)
  have wa: "\<And>a. a < 3 * n \<Longrightarrow> ws ! a = face_indices a" by (simp add: ws_def)
  have ta: "\<And>a. a < 3 * n \<Longrightarrow> set (take a ws) = face_indices ` {0..<a}"
    unfolding ws_def by (rule set_take_corners) simp
  from inv have d: "distinct vs" and sv: "set vs = obj_vertex_of ` set ws"
    and li: "length idx = 3 * n"
    and ia: "\<And>a. a < 3 * n \<Longrightarrow> unat (idx ! a) < length vs \<and> vs ! unat (idx ! a) = obj_vertex_of (ws ! a)"
    and fa: "\<And>a. a < 3 * n \<Longrightarrow> ws ! a \<notin> set (take a ws) \<Longrightarrow> unat (idx ! a) = card (set (take a ws))"
    by (simp_all add: dedup_inv_def lw)
  have c1: "length fdata = 3 * n" by (simp add: fd li)
  have c2: "face_indices a = face_indices b \<longleftrightarrow> fdata ! a = fdata ! b"
    if "a < 3 * n" "b < 3 * n" for a b
  proof
    assume eq: "face_indices a = face_indices b"
    have "vs ! unat (idx ! a) = vs ! unat (idx ! b)" using ia that eq wa by simp
    moreover have "unat (idx ! a) < length vs" "unat (idx ! b) < length vs"
      using ia that by simp_all
    ultimately have "unat (idx ! a) = unat (idx ! b)"
      using nth_eq_iff_index_eq [OF d, of "unat (idx ! a)" "unat (idx ! b)"] by simp
    then show "fdata ! a = fdata ! b" by (simp add: fd word_unat_eq_iff)
  next
    assume "fdata ! a = fdata ! b"
    then have "obj_vertex_of (ws ! a) = obj_vertex_of (ws ! b)" using ia that fd by metis
    then show "face_indices a = face_indices b"
      using that wa by (simp add: obj_vertex_of_def)
  qed
  have c3: "unat ` set fdata = {0..<length cols}"
  proof (rule set_eqI, rule iffI)
    fix j assume "j \<in> unat ` set fdata"
    then obtain a where "a < 3 * n" "j = unat (idx ! a)"
      by (auto simp: fd in_set_conv_nth li)
    then show "j \<in> {0..<length cols}" using ia lc by simp
  next
    fix j assume "j \<in> {0..<length cols}"
    then have j: "j < length vs" using lc by simp
    then have "vs ! j \<in> obj_vertex_of ` set ws" using sv nth_mem by blast
    then obtain a where a: "a < 3 * n" "vs ! j = obj_vertex_of (ws ! a)"
      by (auto simp: in_set_conv_nth lw)
    then have "vs ! unat (idx ! a) = vs ! j" using ia by simp
    moreover have "unat (idx ! a) < length vs" using ia a by simp
    ultimately have "unat (idx ! a) = j"
      using nth_eq_iff_index_eq [OF d, of "unat (idx ! a)" j] j by simp
    moreover have "idx ! a \<in> set fdata" using a li fd by simp
    ultimately show "j \<in> unat ` set fdata" by blast
  qed
  have c4: "cols ! unat (fdata ! a) = read_positions verts (nat (sint n_verts)) ! unat (face_indices a)"
    if "a < 3 * n" for a
    using ia [OF that] wa [OF that] by (simp add: cols fd obj_vertex_of_def)
  have c5: "unat (fdata ! a) = card (face_indices ` {0..<a})"
    if "a < 3 * n" "face_indices a \<notin> face_indices ` {0..<a}" for a
    using fa [OF that(1)] that wa ta by (simp add: fd)
  have c6: "fdata ! a < fdata ! b"
    if "a < 3 * n" "b < 3 * n" "a < b" "face_indices a \<notin> face_indices ` {0..<a}"
       "face_indices b \<notin> face_indices ` {0..<b}" for a b
  proof -
    have "face_indices ` {0..<a} \<subset> face_indices ` {0..<b}"
    proof
      show "face_indices ` {0..<a} \<subseteq> face_indices ` {0..<b}" using that(3) by auto
      have "face_indices a \<in> face_indices ` {0..<b}" using that(3) by simp
      then show "face_indices ` {0..<a} \<noteq> face_indices ` {0..<b}" using that(4) by auto
    qed
    then have "card (face_indices ` {0..<a}) < card (face_indices ` {0..<b})"
      by (intro psubset_card_mono) simp_all
    then have "unat (fdata ! a) < unat (fdata ! b)" using c5 that by simp
    then show ?thesis by (simp add: word_less_nat_alt)
  qed
  show "length fdata = 3 * nat (sint n_faces) \<and>
        (\<forall>a<3 * nat (sint n_faces). \<forall>b<3 * nat (sint n_faces).
           face_indices a = face_indices b \<longleftrightarrow> fdata ! a = fdata ! b) \<and>
        unat ` set fdata = {0..<length cols} \<and>
        (\<forall>a<3 * nat (sint n_faces).
           cols ! unat (fdata ! a)
             = read_positions verts (nat (sint n_verts)) ! unat (face_indices a)) \<and>
        (\<forall>a<3 * nat (sint n_faces). face_indices a \<notin> face_indices ` {0..<a} \<longrightarrow>
           unat (fdata ! a) = card (face_indices ` {0..<a})) \<and>
        (\<forall>a<3 * nat (sint n_faces). \<forall>b<3 * nat (sint n_faces).
           a < b \<and> face_indices a \<notin> face_indices ` {0..<a} \<and>
           face_indices b \<notin> face_indices ` {0..<b}
             \<longrightarrow> fdata ! a < fdata ! b)"
    unfolding n_def [symmetric] using c1 c2 c3 c4 c5 c6 by blast
qed

text \<open>
  Claim C4. For \<open>N = n_verts\<close> positions (\<open>N\<close> not negative) and \<open>M = n_faces\<close>
  faces whose indices all lie in \<open>[0, N)\<close>, mesh ingestion returns a compact mesh with
  at most \<open>N\<close> vertices and a face-index array of exactly \<open>3 * M\<close> entries. Its
  vertices are the positions of a duplicate-free list \<open>us\<close> of input indices, and
  these are exactly the indices some corner references: an input vertex that no face
  references does not appear.
\<close>

theorem LoadFromArrays_compact_mesh:
  assumes nv: "0 \<le> sint n_verts"
    and valid: "\<forall>k<3 * nat (sint n_faces).
                  0 \<le> sint (face_indices k) \<and> sint (face_indices k) < sint n_verts"
  shows "\<exists>cols fdata us.
           LoadFromArrays_compact verts n_verts face_indices n_faces = Inr (cols, fdata) \<and>
           length cols \<le> nat (sint n_verts) \<and>
           length fdata = 3 * nat (sint n_faces) \<and>
           distinct us \<and> set us = face_indices ` {0..<3 * nat (sint n_faces)} \<and>
           cols = map (\<lambda>u. read_positions verts (nat (sint n_verts)) ! unat u) us"
proof -
  define n where "n = nat (sint n_faces)"
  define ws where "ws = map face_indices [0..<3 * n]"
  obtain m idx vs where loop: "face_loop face_indices n = (m, idx, vs)"
    by (cases "face_loop face_indices n")
  have inv: "dedup_inv ws (m, idx, vs)"
    using face_loop_inv [of face_indices n] by (simp add: loop ws_def)
  have sw: "set ws = face_indices ` {0..<3 * n}" by (simp add: ws_def)
  have vps: "vp ` set vs = set ws" using inv by (rule vp_vertices)
  have dus: "distinct (map vp vs)" using inv by (rule distinct_vp_vertices)
  have inside: "\<forall>v\<in>set vs. unat (vp v) < nat (sint n_verts)"
  proof
    fix v assume "v \<in> set vs"
    then have "vp v \<in> face_indices ` {0..<3 * n}" using vps sw by blast
    then obtain k where "k < 3 * n" "vp v = face_indices k" by auto
    then show "unat (vp v) < nat (sint n_verts)"
      using valid nv by (simp add: n_def valid_index)
  qed
  let ?cols = "map (\<lambda>v. read_positions verts (nat (sint n_verts)) ! unat (vp v)) vs"
  have res: "LoadFromArrays_compact verts n_verts face_indices n_faces = Inr (?cols, idx)"
    using load_result [OF loop [unfolded n_def] nv, of verts] inside by simp
  have "distinct (map unat (map vp vs))"
    using dus by (simp add: distinct_map inj_on_def word_unat_eq_iff)
  then have "length vs = card (unat ` vp ` set vs)"
    using distinct_card [of "map unat (map vp vs)"] by (simp add: image_image)
  also have "\<dots> \<le> card {0..<nat (sint n_verts)}"
    by (rule card_mono) (use inside in auto)
  finally have le: "length ?cols \<le> nat (sint n_verts)" by simp
  have li: "length idx = 3 * n" using inv by (simp add: dedup_inv_def ws_def)
  have "?cols = map (\<lambda>u. read_positions verts (nat (sint n_verts)) ! unat u) (map vp vs)"
    by (simp add: comp_def)
  then show ?thesis using res le li dus vps sw unfolding n_def [symmetric]
    by (intro exI [of _ ?cols] exI [of _ idx] exI [of _ "map vp vs"]) simp
qed

subsection \<open>Ingestion of a triangle and of a square\<close>

lemmas load_eval = LoadFromArrays_compact_def read_positions_def face_loop_def tri_def
  obj_vertex_of_def vector_at_def upt_conv_Cons

lemma triangle_load:
  "LoadFromArrays_compact triangle_verts 3 triangle_faces 1
     = Inr ([(0, 0, 0), (1, 0, 0), (0, 1, 0)], [0, 1, 2])"
  by (simp add: load_eval triangle_verts_def triangle_faces_def)

text \<open>
  Two triangles over a square: corners 2 and 3 share input vertex 1, corners 0 and 5
  share input vertex 3, and the first reference is to input vertex 3.
\<close>

lemma square_load:
  "LoadFromArrays_compact square_verts 4 square_faces 2
     = Inr ([(0, 1, 0), (0, 0, 0), (1, 0, 0), (1, 1, 0)], [0, 1, 2, 2, 3, 0])"
  by (simp add: load_eval square_verts_def square_faces_def)

theorem LoadFromArrays_dedup_dense_first_reference_witness:
  "0 \<le> sint (4 :: cint) \<and>
   0 \<le> sint (square_faces 0) \<and> sint (square_faces 0) < sint (4 :: cint) \<and>
   0 \<le> sint (square_faces 1) \<and> sint (square_faces 1) < sint (4 :: cint) \<and>
   0 \<le> sint (square_faces 2) \<and> sint (square_faces 2) < sint (4 :: cint) \<and>
   0 \<le> sint (square_faces 3) \<and> sint (square_faces 3) < sint (4 :: cint) \<and>
   0 \<le> sint (square_faces 4) \<and> sint (square_faces 4) < sint (4 :: cint) \<and>
   0 \<le> sint (square_faces 5) \<and> sint (square_faces 5) < sint (4 :: cint) \<and>
   (\<exists>cols fdata. LoadFromArrays_compact square_verts 4 square_faces 2 = Inr (cols, fdata)) \<and>
   LoadFromArrays_compact square_verts 4 square_faces 2
     = Inr ([(0, 1, 0), (0, 0, 0), (1, 0, 0), (1, 1, 0)], [0, 1, 2, 2, 3, 0]) \<and>
   square_faces 2 = square_faces 3 \<and> square_faces 0 = square_faces 5 \<and>
   length [0, 1, 2, 2, 3, 0 :: uint32] = 3 * nat (sint (2 :: cint)) \<and>
   unat ` set [0, 1, 2, 2, 3, 0 :: uint32]
     = {0..<length [(0, 1, 0), (0, 0, 0), (1, 0, 0), (1 :: real, 1 :: real, 0 :: real)]}"
proof -
  have nv: "0 \<le> sint (4 :: cint)" by simp
  have valid: "\<forall>k<3 * nat (sint (2 :: cint)).
      0 \<le> sint (square_faces k) \<and> sint (square_faces k) < sint (4 :: cint)"
    by (simp add: square_faces_def less_Suc_eq eval_nat_numeral)
  have each: "0 \<le> sint (square_faces 0) \<and> sint (square_faces 0) < sint (4 :: cint) \<and>
      0 \<le> sint (square_faces 1) \<and> sint (square_faces 1) < sint (4 :: cint) \<and>
      0 \<le> sint (square_faces 2) \<and> sint (square_faces 2) < sint (4 :: cint) \<and>
      0 \<le> sint (square_faces 3) \<and> sint (square_faces 3) < sint (4 :: cint) \<and>
      0 \<le> sint (square_faces 4) \<and> sint (square_faces 4) < sint (4 :: cint) \<and>
      0 \<le> sint (square_faces 5) \<and> sint (square_faces 5) < sint (4 :: cint)"
    by (simp add: square_faces_def)
  have shared: "square_faces 2 = square_faces 3 \<and> square_faces 0 = square_faces 5"
    by (simp add: square_faces_def)
  note inst = LoadFromArrays_dedup_dense_first_reference
      [of 4 2 square_faces square_verts]
  have total: "\<exists>cols fdata.
      LoadFromArrays_compact square_verts 4 square_faces 2 = Inr (cols, fdata)"
    using inst nv valid by blast
  have props: "length [0, 1, 2, 2, 3, 0 :: uint32] = 3 * nat (sint (2 :: cint)) \<and>
      unat ` set [0, 1, 2, 2, 3, 0 :: uint32]
        = {0..<length [(0, 1, 0), (0, 0, 0), (1, 0, 0), (1 :: real, 1 :: real, 0 :: real)]}"
    using inst square_load by blast
  show ?thesis using nv each shared total square_load props by blast
qed

theorem LoadFromArrays_compact_mesh_witness:
  "0 \<le> sint (3 :: cint) \<and>
   0 \<le> sint (triangle_faces 0) \<and> sint (triangle_faces 0) < sint (3 :: cint) \<and>
   0 \<le> sint (triangle_faces 1) \<and> sint (triangle_faces 1) < sint (3 :: cint) \<and>
   0 \<le> sint (triangle_faces 2) \<and> sint (triangle_faces 2) < sint (3 :: cint) \<and>
   (\<exists>cols fdata. LoadFromArrays_compact triangle_verts 3 triangle_faces 1 = Inr (cols, fdata) \<and>
      length cols \<le> nat (sint (3 :: cint)) \<and> length fdata = 3 * nat (sint (1 :: cint)))"
proof -
  have nv: "0 \<le> sint (3 :: cint)" by simp
  have valid: "\<forall>k<3 * nat (sint (1 :: cint)).
      0 \<le> sint (triangle_faces k) \<and> sint (triangle_faces k) < sint (3 :: cint)"
    by (simp add: triangle_faces_def less_Suc_eq numeral_3_eq_3)
  have each: "0 \<le> sint (triangle_faces 0) \<and> sint (triangle_faces 0) < sint (3 :: cint) \<and>
      0 \<le> sint (triangle_faces 1) \<and> sint (triangle_faces 1) < sint (3 :: cint) \<and>
      0 \<le> sint (triangle_faces 2) \<and> sint (triangle_faces 2) < sint (3 :: cint)"
    by (simp add: triangle_faces_def)
  from LoadFromArrays_compact_mesh [OF nv valid, of triangle_verts]
  show ?thesis using nv each by blast
qed

lemma load_out_of_range:
  assumes nv: "0 \<le> sint n_verts"
    and k: "k < 3 * nat (sint n_faces)"
    and bad: "sint (face_indices k) < 0 \<or> sint n_verts \<le> sint (face_indices k)"
  shows "LoadFromArrays_compact verts n_verts face_indices n_faces = Inl out_of_range"
proof -
  define n where "n = nat (sint n_faces)"
  define ws where "ws = map face_indices [0..<3 * n]"
  obtain m idx vs where loop: "face_loop face_indices n = (m, idx, vs)"
    by (cases "face_loop face_indices n")
  have inv: "dedup_inv ws (m, idx, vs)"
    using face_loop_inv [of face_indices n] by (simp add: loop ws_def)
  have "face_indices k \<in> set ws" using k by (simp add: ws_def n_def)
  then have "face_indices k \<in> vp ` set vs" using vp_vertices [OF inv] by simp
  then obtain v where v: "v \<in> set vs" "vp v = face_indices k" by auto
  have "\<not> unat (vp v) < nat (sint n_verts)"
    using invalid_index [OF nv bad] v by simp
  then have "\<not> (\<forall>v\<in>set vs. unat (vp v) < nat (sint n_verts))" using v by blast
  then show ?thesis using load_result [OF loop [unfolded n_def] nv, of verts] by simp
qed

subsection \<open>Sequencing of stages\<close>

lemma bnd_Inl [simp]: "bnd (t, Inl e) f = (t, Inl e)"
  by (simp add: bnd_def)

lemma bnd_Inr [simp]: "bnd (t, Inr x) f = (case f x of (t', r) \<Rightarrow> (t @ t', r))"
  by (simp add: bnd_def)

lemma bnd_ret [simp]: "bnd (ret x) f = f x"
  by (simp add: bnd_def ret_def split: prod.splits)

lemma bnd_enter_Inl [simp]: "bnd (enter st (Inl e)) f = ([st], Inl e)"
  by (simp add: enter_def)

lemma bnd_enter_Inr [simp]:
  "bnd (enter st (Inr x)) f = (case f x of (t', r) \<Rightarrow> (st # t', r))"
  by (simp add: enter_def)

lemmas bnd_simps = bnd_Inl bnd_Inr bnd_ret bnd_enter_Inl bnd_enter_Inr

lemma run_load_failure:
  assumes pre: "0 < sint n_verts" "0 < sint n_faces" "0 < sint target_faces"
    and load: "LoadFromArrays_compact verts n_verts face_indices n_faces = Inl e"
  shows "run_quadriflow eng verts n_verts face_indices n_faces target_faces seed
           ps pb ads ags mcf = ([Apply_flags_and_seed, Load_and_normalize], Inl e)"
  using pre load by (simp add: run_quadriflow_def run_stages_def LoadFromArrays_def)

section \<open>Properties of the boundary constraints\<close>

lemma squaredNorm_self [simp]: "squaredNorm (vec_minus a a) = 0"
  by (cases a) (simp add: squaredNorm_def vec_minus_def)

text \<open>The comparison holds of no vector of squared length zero, in any arithmetic.\<close>

lemma passes_positive: "passes test e \<Longrightarrow> 0 < squaredNorm e"
  using passes [of test] by blast

lemma not_passes_self [simp]: "\<not> passes test (vec_minus a a)"
proof
  assume "passes test (vec_minus a a)"
  then have "0 < squaredNorm (vec_minus a a)" by (rule passes_positive)
  then show False by simp
qed

lemma not_passes_null [simp]: "\<not> passes test (0, 0, 0)"
proof
  assume "passes test (0, 0, 0)"
  then have "0 < squaredNorm (0, 0, 0)" by (rule passes_positive)
  then show False by (simp add: squaredNorm_def)
qed

lemma passes_exact [simp]: "passes exact_test e = (0 < squaredNorm e)"
  by (simp add: exact_test_def Abs_nonzero_test_inverse)

lemma positive_of_scaled:
  assumes "0 < c" "1 \<le> s * c"
  shows "0 < (s :: real)"
proof (rule ccontr)
  assume "\<not> 0 < s"
  then have "s * c \<le> 0" using assms(1) by (simp add: mult_le_0_iff)
  with assms(2) show False by simp
qed

lemma passes_underflow: "passes underflow_test e = (1 \<le> squaredNorm e * 2 ^ 1074)"
proof -
  have "\<forall>e. 1 \<le> squaredNorm e * 2 ^ 1074 \<longrightarrow> 0 < squaredNorm e"
    using positive_of_scaled [of "2 ^ 1074"] by simp
  then show ?thesis
    by (simp add: underflow_test_def Abs_nonzero_test_inverse)
qed

lemma same_mesh_refl [simp]: "same_mesh a a"
  by (simp add: same_mesh_def)



text \<open>The three ways in which the loop body ends with a value.\<close>

lemma boundary_edge_cases:
  assumes "boundary_edge test nrm i mRes = Inr mRes'"
  obtains (interior) "i < length (mE2E mRes)" "mE2E mRes ! i \<noteq> - 1" "mRes' = mRes"
  | (degenerate) "i < length (mE2E mRes)" "mE2E mRes ! i = - 1" "reads_inside mRes i"
      "\<not> passes test (edge_vector mRes i)" "mRes' = mRes"
  | (written) "i < length (mE2E mRes)" "mE2E mRes ! i = - 1" "reads_inside mRes i"
      "passes test (edge_vector mRes i)" "writes_inside mRes i"
      "mRes' = mRes\<lparr>mCO := set_level0 (mCO mRes) (edge_i0 mRes i) (mV mRes ! 0 ! edge_i0 mRes i)
                               (edge_i1 mRes i) (mV mRes ! 0 ! edge_i1 mRes i),
                     mCQ := set_level0 (mCQ mRes) (edge_i0 mRes i) (nrm (edge_vector mRes i))
                               (edge_i1 mRes i) (nrm (edge_vector mRes i)),
                     mCQw := set_level0 (mCQw mRes) (edge_i0 mRes i) 1 (edge_i1 mRes i) 1,
                     mCOw := set_level0 (mCOw mRes) (edge_i0 mRes i) 1 (edge_i1 mRes i) 1\<rparr>"
  using assms unfolding boundary_edge_def edge_vector_def Let_def
  by (auto split: if_splits)

lemma boundary_edge_same_mesh:
  assumes "boundary_edge test nrm i mRes = Inr mRes'"
  shows "same_mesh mRes' mRes"
  using assms by (cases rule: boundary_edge_cases) (simp_all add: same_mesh_def)






lemma for_edges_inside:
  "for_edges test nrm is mRes = Inr mRes' \<Longrightarrow> i \<in> set is \<Longrightarrow> i < length (mE2E mRes)"
proof (induction "is" arbitrary: mRes)
  case Nil
  then show ?case by simp
next
  case (Cons j "is")
  from Cons.prems(1) obtain mid where st: "boundary_edge test nrm j mRes = Inr mid"
    and rest: "for_edges test nrm is mid = Inr mRes'"
    by (auto split: sum.splits)
  have j: "j < length (mE2E mRes)" using st by (cases rule: boundary_edge_cases)
  have "mE2E mid = mE2E mRes" using boundary_edge_same_mesh [OF st] by (simp add: same_mesh_def)
  then show ?case using Cons.IH [OF rest] Cons.prems(2) j by auto
qed

lemma boundary_edge_nrm_cong:
  assumes "\<forall>v. passes test v \<longrightarrow> nrm v = nrm' v"
  shows "boundary_edge test nrm i mRes = boundary_edge test nrm' i mRes"
proof -
  have "nrm e = nrm' e" if "passes test e" for e
    using assms that by blast
  then show ?thesis by (auto simp: boundary_edge_def Let_def)
qed

lemma for_edges_nrm_cong:
  assumes "\<forall>v. passes test v \<longrightarrow> nrm v = nrm' v"
  shows "for_edges test nrm is mRes = for_edges test nrm' is mRes"
  by (induction "is" arbitrary: mRes)
    (auto simp: boundary_edge_nrm_cong [OF assms] split: sum.splits)

lemma boundary_edge_zero_length:
  assumes "i < length (mE2E mRes)" "mE2E mRes ! i = - 1" "reads_inside mRes i"
    and "mV mRes ! 0 ! edge_i0 mRes i = mV mRes ! 0 ! edge_i1 mRes i"
  shows "boundary_edge test nrm i mRes = Inr mRes"
  using assms by (simp add: boundary_edge_def Let_def)

lemma derive_nrm_cong:
  assumes "\<forall>v. passes test v \<longrightarrow> nrm v = nrm' v"
  shows "derive_boundary_constraints test nrm mRes = derive_boundary_constraints test nrm' mRes"
  by (simp add: derive_boundary_constraints_def for_edges_nrm_cong [OF assms])

lemma positive_nrm_cong:
  assumes "\<forall>v. squaredNorm v > 0 \<longrightarrow> nrm v = nrm' v"
  shows "\<forall>v. passes test v \<longrightarrow> nrm v = nrm' v"
  using assms passes_positive by blast

lemmas boundary_eval = derive_boundary_constraints_def boundary_edge_def reads_inside_def
  writes_inside_def level0_has_def set_level0_def edge_i0_def edge_i1_def edge_vector_def
  vec_minus_def squaredNorm_def upt_conv_Cons Let_def











text \<open>
  Claim C10. A half-edge without opposite whose two endpoint positions coincide leaves
  the hierarchy as it is: the loop body returns the hierarchy unchanged, so no constrained
  position, constrained direction or weight changes, whatever the arithmetic of the
  comparison. Normalisation is never applied to a vector of squared length zero: two
  normalisation functions that agree on the vectors of positive squared length give the
  same loop body and the same loop; so do two that agree on the vectors of which the
  comparison is true.
\<close>

theorem zero_length_edge_contributes_nothing:
  "(i < length (mE2E mRes) \<and> mE2E mRes ! i = - 1 \<and> reads_inside mRes i \<and>
      mV mRes ! 0 ! edge_i0 mRes i = mV mRes ! 0 ! edge_i1 mRes i
        \<longrightarrow> boundary_edge test nrm i mRes = Inr mRes) \<and>
   ((\<forall>e. squaredNorm e > 0 \<longrightarrow> nrm e = nrm' e)
        \<longrightarrow> boundary_edge test nrm i mRes = boundary_edge test nrm' i mRes \<and>
            derive_boundary_constraints test nrm mRes = derive_boundary_constraints test nrm' mRes) \<and>
   ((\<forall>e. passes test e \<longrightarrow> nrm e = nrm' e)
        \<longrightarrow> boundary_edge test nrm i mRes = boundary_edge test nrm' i mRes \<and>
            derive_boundary_constraints test nrm mRes = derive_boundary_constraints test nrm' mRes)"
proof (intro conjI impI)
  assume "i < length (mE2E mRes) \<and> mE2E mRes ! i = - 1 \<and> reads_inside mRes i \<and>
      mV mRes ! 0 ! edge_i0 mRes i = mV mRes ! 0 ! edge_i1 mRes i"
  then show "boundary_edge test nrm i mRes = Inr mRes"
    by (simp add: boundary_edge_zero_length)
next
  assume a: "\<forall>e. squaredNorm e > 0 \<longrightarrow> nrm e = nrm' e"
  show "boundary_edge test nrm i mRes = boundary_edge test nrm' i mRes"
    by (rule boundary_edge_nrm_cong [OF positive_nrm_cong [OF a]])
  show "derive_boundary_constraints test nrm mRes = derive_boundary_constraints test nrm' mRes"
    by (rule derive_nrm_cong [OF positive_nrm_cong [OF a]])
next
  assume a: "\<forall>e. passes test e \<longrightarrow> nrm e = nrm' e"
  show "boundary_edge test nrm i mRes = boundary_edge test nrm' i mRes"
    by (rule boundary_edge_nrm_cong [OF a])
  show "derive_boundary_constraints test nrm mRes = derive_boundary_constraints test nrm' mRes"
    by (rule derive_nrm_cong [OF a])
qed

theorem zero_length_edge_contributes_nothing_witness:
  "(0 :: nat) < length (mE2E point_mRes) \<and> mE2E point_mRes ! 0 = - 1 \<and> reads_inside point_mRes 0 \<and>
   mV point_mRes ! 0 ! edge_i0 point_mRes 0 = mV point_mRes ! 0 ! edge_i1 point_mRes 0 \<and>
   boundary_edge exact_test sample_normalize 0 point_mRes = Inr point_mRes \<and>
   boundary_edge underflow_test sample_normalize 0 point_mRes = Inr point_mRes \<and>
   derive_boundary_constraints exact_test sample_normalize point_mRes =
     derive_boundary_constraints exact_test
       (\<lambda>e. if squaredNorm e > 0 then sample_normalize e else (1, 0, 0)) point_mRes \<and>
   derive_boundary_constraints underflow_test sample_normalize sliver_mRes =
     derive_boundary_constraints underflow_test
       (\<lambda>e. if 1 \<le> squaredNorm e * 2 ^ 1074 then sample_normalize e else (1, 0, 0)) sliver_mRes"
proof -
  have h: "(0 :: nat) < length (mE2E point_mRes) \<and> mE2E point_mRes ! 0 = - 1 \<and>
      reads_inside point_mRes 0 \<and>
      mV point_mRes ! 0 ! edge_i0 point_mRes 0 = mV point_mRes ! 0 ! edge_i1 point_mRes 0"
    by (simp add: point_mRes_def reads_inside_def edge_i0_def edge_i1_def)
  have a: "\<forall>e. squaredNorm e > 0 \<longrightarrow>
      sample_normalize e = (if squaredNorm e > 0 then sample_normalize e else (1, 0, 0))"
    by simp
  have b: "\<forall>e. passes underflow_test e \<longrightarrow>
      sample_normalize e = (if 1 \<le> squaredNorm e * 2 ^ 1074 then sample_normalize e else (1, 0, 0))"
    by (simp add: passes_underflow)
  note exact = zero_length_edge_contributes_nothing
         [of 0 point_mRes exact_test sample_normalize
             "\<lambda>e. if squaredNorm e > 0 then sample_normalize e else (1, 0, 0)"]
  note under = zero_length_edge_contributes_nothing
         [of 0 point_mRes underflow_test sample_normalize sample_normalize]
  note sliver = zero_length_edge_contributes_nothing
         [of 0 sliver_mRes underflow_test sample_normalize
             "\<lambda>e. if 1 \<le> squaredNorm e * 2 ^ 1074 then sample_normalize e else (1, 0, 0)"]
  have e1: "boundary_edge exact_test sample_normalize 0 point_mRes = Inr point_mRes"
    using exact h by blast
  have e2: "boundary_edge underflow_test sample_normalize 0 point_mRes = Inr point_mRes"
    using under h by blast
  have e3: "derive_boundary_constraints exact_test sample_normalize point_mRes =
     derive_boundary_constraints exact_test
       (\<lambda>e. if squaredNorm e > 0 then sample_normalize e else (1, 0, 0)) point_mRes"
    using exact a by blast
  have e4: "derive_boundary_constraints underflow_test sample_normalize sliver_mRes =
     derive_boundary_constraints underflow_test
       (\<lambda>e. if 1 \<le> squaredNorm e * 2 ^ 1074 then sample_normalize e else (1, 0, 0)) sliver_mRes"
    using sliver b by blast
  show ?thesis using h e1 e2 e3 e4 by blast
qed

section \<open>Properties of the pipeline\<close>

subsection \<open>The order of the stages\<close>

lemma follows_ret: "follows (ret x) []"
  by (simp add: follows_def ret_def)

lemma follows_enter: "follows (enter st r) [st]"
  by (simp add: follows_def enter_def)

lemma follows_bnd:
  assumes m: "follows m xs" and f: "\<And>x. snd m = Inr x \<Longrightarrow> follows (f x) ys"
  shows "follows (bnd m f) (xs @ ys)"
proof (cases m)
  case (Pair t r)
  show ?thesis
  proof (cases r)
    case (Inl e)
    with Pair m show ?thesis by (auto simp: follows_def)
  next
    case (Inr x)
    with Pair m have t: "t = xs" by (simp add: follows_def)
    obtain t' r' where fx: "f x = (t', r')" by (cases "f x")
    have "follows (t', r') ys" using f [of x] Pair Inr fx by simp
    then show ?thesis using Pair Inr t fx by (auto simp: follows_def)
  qed
qed

lemma follows_enter_bnd:
  assumes "\<And>x. r = Inr x \<Longrightarrow> follows (f x) ys"
  shows "follows (bnd (enter st r) f) (st # ys)"
  using follows_bnd [OF follows_enter [of st r], of f ys] assms by (simp add: enter_def)

lemma snd_bnd_Inr:
  assumes "snd (bnd m f) = Inr y"
  obtains x where "snd m = Inr x" "snd (f x) = Inr y"
  using assms by (cases m; cases "snd m") (auto simp: bnd_def split: prod.splits)

lemma snd_enter [simp]: "snd (enter st r) = r"
  by (simp add: enter_def)

lemma snd_ret [simp]: "snd (ret x) = Inr x"
  by (simp add: ret_def)

lemma preserve_boundary_stage_follows:
  "follows (preserve_boundary_stage eng field)
     (if flag_preserve_boundary field \<noteq> 0
      then [Clear_constraints, Derive_boundary_constraints, Propagate_constraints] else [])"
  unfolding preserve_boundary_stage_def
  by (auto intro!: follows_enter_bnd follows_ret)

lemma preserve_boundary_stage_flags:
  assumes "snd (preserve_boundary_stage eng field) = Inr field'"
  shows "flag_adaptive_scale field' = flag_adaptive_scale field"
proof (cases "flag_preserve_boundary field \<noteq> 0")
  case False
  with assms show ?thesis by (simp add: preserve_boundary_stage_def)
next
  case True
  with assms show ?thesis
    unfolding preserve_boundary_stage_def
    by (auto elim!: snd_bnd_Inr)
qed

lemma keeps_flagsD:
  "keeps_flags f \<Longrightarrow> f x = Inr y \<Longrightarrow>
     flag_preserve_boundary y = flag_preserve_boundary x \<and>
     flag_adaptive_scale y = flag_adaptive_scale x"
  by (simp add: keeps_flags_def)

lemma optimize_fields_follows:
  assumes k1: "keeps_flags (ComputeOrientationSingularities eng)"
    and k2: "keeps_flags (EstimateSlope eng)"
  shows "follows (optimize_fields eng field)
     ([Optimize_orientations, Compute_orientation_singularities] @
      (if flag_adaptive_scale field = 1 then [Estimate_slope] else []) @
      [Optimize_scale (flag_adaptive_scale field), Optimize_positions 1])"
proof -
  let ?a = "flag_adaptive_scale field"
  have tail: "follows
      (bnd (enter (Optimize_scale (flag_adaptive_scale f2))
              (optimize_scale eng (hierarchy f2) (rho f2) (flag_adaptive_scale f2)))
         (\<lambda>scaled.
            let field = f2\<lparr>hierarchy := fst scaled, rho := snd scaled\<rparr>;
                field = field\<lparr>flag_adaptive_scale := 1\<rparr>
            in bnd (enter (Optimize_positions (flag_adaptive_scale field))
                      (optimize_positions eng (hierarchy field) (flag_adaptive_scale field)))
                 (\<lambda>mRes. ret (field\<lparr>hierarchy := mRes\<rparr>))))
      [Optimize_scale ?a, Optimize_positions 1]"
    if "flag_adaptive_scale f2 = ?a" for f2
    using that by (auto simp: Let_def intro!: follows_enter_bnd follows_ret)
  have slope: "follows
      (bnd (if flag_adaptive_scale f1 = 1
            then enter Estimate_slope (EstimateSlope eng f1) else ret f1)
         (\<lambda>f2. bnd (enter (Optimize_scale (flag_adaptive_scale f2))
              (optimize_scale eng (hierarchy f2) (rho f2) (flag_adaptive_scale f2)))
         (\<lambda>scaled.
            let field = f2\<lparr>hierarchy := fst scaled, rho := snd scaled\<rparr>;
                field = field\<lparr>flag_adaptive_scale := 1\<rparr>
            in bnd (enter (Optimize_positions (flag_adaptive_scale field))
                      (optimize_positions eng (hierarchy field) (flag_adaptive_scale field)))
                 (\<lambda>mRes. ret (field\<lparr>hierarchy := mRes\<rparr>)))))
      ((if ?a = 1 then [Estimate_slope] else []) @ [Optimize_scale ?a, Optimize_positions 1])"
    if f1: "flag_adaptive_scale f1 = ?a" for f1
  proof (rule follows_bnd)
    show "follows (if flag_adaptive_scale f1 = 1
            then enter Estimate_slope (EstimateSlope eng f1) else ret f1)
           (if ?a = 1 then [Estimate_slope] else [])"
      using f1 by (simp add: follows_enter follows_ret)
  next
    fix f2
    assume "snd (if flag_adaptive_scale f1 = 1
            then enter Estimate_slope (EstimateSlope eng f1) else ret f1) = Inr f2"
    then have "flag_adaptive_scale f2 = ?a"
      using f1 keeps_flagsD [OF k2, of f1 f2] by (auto split: if_splits)
    then show "follows
      (bnd (enter (Optimize_scale (flag_adaptive_scale f2))
              (optimize_scale eng (hierarchy f2) (rho f2) (flag_adaptive_scale f2)))
         (\<lambda>scaled.
            let field = f2\<lparr>hierarchy := fst scaled, rho := snd scaled\<rparr>;
                field = field\<lparr>flag_adaptive_scale := 1\<rparr>
            in bnd (enter (Optimize_positions (flag_adaptive_scale field))
                      (optimize_positions eng (hierarchy field) (flag_adaptive_scale field)))
                 (\<lambda>mRes. ret (field\<lparr>hierarchy := mRes\<rparr>))))
      [Optimize_scale ?a, Optimize_positions 1]"
      by (rule tail)
  qed
  show ?thesis
    unfolding optimize_fields_def
    apply (simp only: append_Cons append_Nil)
    apply (rule follows_enter_bnd)
    apply (rule follows_enter_bnd)
    apply (rule slope)
    apply (drule keeps_flagsD [OF k1])
    apply simp
    done
qed

lemma extract_quads_follows:
  "follows (extract_quads eng field) [Compute_position_singularities, Compute_index_map]"
  unfolding extract_quads_def
  by (auto intro!: follows_enter_bnd follows_enter)

lemma apply_flags_flags:
  "flag_preserve_boundary (apply_flags field seed ps pb ads ags mcf)
     = (if pb then 1 else flag_preserve_boundary field)"
  "flag_adaptive_scale (apply_flags field seed ps pb ads ags mcf)
     = (if ads then 1 else flag_adaptive_scale field)"
  by (simp_all add: apply_flags_def Let_def)

lemma LoadFromArrays_flags:
  assumes "keeps_flags (NormalizeMesh eng)"
    and "LoadFromArrays eng field verts nv fs nf = Inr field'"
  shows "flag_preserve_boundary field' = flag_preserve_boundary field \<and>
         flag_adaptive_scale field' = flag_adaptive_scale field"
  using assms(2) keeps_flagsD [OF assms(1)]
  by (fastforce simp: LoadFromArrays_def split: sum.splits prod.splits)

lemma run_stages_follows:
  assumes keeps: "solver_keeps_flags eng" and fresh: "fresh_flags_clear eng"
  shows "follows (run_stages eng verts nv fs nf target seed ps pb ads ags mcf)
           (spec_stage_order target pb ads)"
proof -
  let ?f0 = "apply_flags (Parametrizer_new eng) seed ps pb ads ags mcf"
  let ?b = "if pb then 1 else 0 :: cint"
  let ?a = "if ads then 1 else 0 :: cint"
  from keeps have kn: "keeps_flags (NormalizeMesh eng)"
    and ki: "keeps_flags (\<lambda>field. Initialize eng field target)"
    and k1: "keeps_flags (ComputeOrientationSingularities eng)"
    and k2: "keeps_flags (EstimateSlope eng)"
    by (simp_all add: solver_keeps_flags_def)
  have f0: "flag_preserve_boundary ?f0 = ?b" "flag_adaptive_scale ?f0 = ?a"
    using fresh by (simp_all add: apply_flags_flags fresh_flags_clear_def)
  have rest: "follows
      (bnd (preserve_boundary_stage eng f3) (\<lambda>field.
       bnd (optimize_fields eng field) (\<lambda>field. extract_quads eng field)))
      ((if pb then [Clear_constraints, Derive_boundary_constraints, Propagate_constraints] else []) @
       ([Optimize_orientations, Compute_orientation_singularities] @
        (if ads then [Estimate_slope] else []) @
        [Optimize_scale ?a, Optimize_positions 1]) @
       [Compute_position_singularities, Compute_index_map])"
    if f3: "flag_preserve_boundary f3 = ?b" "flag_adaptive_scale f3 = ?a" for f3
  proof (rule follows_bnd)
    show "follows (preserve_boundary_stage eng f3)
            (if pb then [Clear_constraints, Derive_boundary_constraints, Propagate_constraints]
             else [])"
      using preserve_boundary_stage_follows [of eng f3] f3 by (simp split: if_splits)
  next
    fix f4 assume "snd (preserve_boundary_stage eng f3) = Inr f4"
    then have a4: "flag_adaptive_scale f4 = ?a"
      using preserve_boundary_stage_flags f3 by metis
    show "follows (bnd (optimize_fields eng f4) (\<lambda>field. extract_quads eng field))
            (([Optimize_orientations, Compute_orientation_singularities] @
              (if ads then [Estimate_slope] else []) @
              [Optimize_scale ?a, Optimize_positions 1]) @
             [Compute_position_singularities, Compute_index_map])"
    proof (rule follows_bnd)
      show "follows (optimize_fields eng f4)
              ([Optimize_orientations, Compute_orientation_singularities] @
               (if ads then [Estimate_slope] else []) @
               [Optimize_scale ?a, Optimize_positions 1])"
        using optimize_fields_follows [OF k1 k2, of f4] a4 by (simp split: if_splits)
    qed (rule extract_quads_follows)
  qed
  have "follows (run_stages eng verts nv fs nf target seed ps pb ads ags mcf)
          (Apply_flags_and_seed # Load_and_normalize # Initialize_hierarchy target #
           ((if pb then [Clear_constraints, Derive_boundary_constraints, Propagate_constraints] else []) @
            ([Optimize_orientations, Compute_orientation_singularities] @
             (if ads then [Estimate_slope] else []) @
             [Optimize_scale ?a, Optimize_positions 1]) @
            [Compute_position_singularities, Compute_index_map]))"
    unfolding run_stages_def
  proof (intro follows_enter_bnd)
    fix x1 x2 x3
    assume x1: "Inr ?f0 = (Inr x1 :: failure + _)"
      and x2: "LoadFromArrays eng x1 verts nv fs nf = Inr x2"
      and x3: "Initialize eng x2 target = Inr x3"
    have "flag_preserve_boundary x2 = ?b \<and> flag_adaptive_scale x2 = ?a"
      using LoadFromArrays_flags [OF kn x2] x1 f0 by auto
    then have "flag_preserve_boundary x3 = ?b \<and> flag_adaptive_scale x3 = ?a"
      using keeps_flagsD [OF ki, of x2 x3] x3 by simp
    then show "follows
      (bnd (preserve_boundary_stage eng x3) (\<lambda>field.
       bnd (optimize_fields eng field) (extract_quads eng)))
      ((if pb then [Clear_constraints, Derive_boundary_constraints, Propagate_constraints] else []) @
       ([Optimize_orientations, Compute_orientation_singularities] @
        (if ads then [Estimate_slope] else []) @
        [Optimize_scale ?a, Optimize_positions 1]) @
       [Compute_position_singularities, Compute_index_map])"
      using rest [of x3] by simp
  qed
  then show ?thesis by (simp add: spec_stage_order_def)
qed

lemma run_quadriflow_trace:
  "fst (run_quadriflow eng verts nv fs nf target seed ps pb ads ags mcf) =
     (if sint nv \<le> 0 \<or> sint nf \<le> 0 \<or> sint target \<le> 0 then []
      else fst (run_stages eng verts nv fs nf target seed ps pb ads ags mcf))"
  by (cases "run_stages eng verts nv fs nf target seed ps pb ads ags mcf")
     (auto simp: run_quadriflow_def bnd_def split: sum.splits)

lemma run_quadriflow_Inr:
  assumes "run_quadriflow eng verts nv fs nf target seed ps pb ads ags mcf = (t, Inr res)"
  obtains field where "0 < sint nv" "0 < sint nf" "0 < sint target"
    "run_stages eng verts nv fs nf target seed ps pb ads ags mcf = (t, Inr field)"
    "extract_output field = Inr res"
  using assms
  by (cases "run_stages eng verts nv fs nf target seed ps pb ads ags mcf")
     (auto simp: run_quadriflow_def bnd_def split: sum.splits if_splits)

subsection \<open>The outcome of the stages\<close>

lemma then_do_Inl [simp]: "then_do (Inl e) f = Inl e"
  by (simp add: then_do_def)

lemma then_do_Inr [simp]: "then_do (Inr x) f = f x"
  by (simp add: then_do_def)

lemma then_do_eq_Inr: "then_do r f = Inr y \<longleftrightarrow> (\<exists>x. r = Inr x \<and> f x = Inr y)"
  by (cases r) simp_all

lemma then_do_assoc: "then_do (then_do r f) g = then_do r (\<lambda>x. then_do (f x) g)"
  by (cases r) simp_all

lemma then_do_eqI:
  assumes "\<And>x. r = Inr x \<Longrightarrow> f x = g x"
  shows "then_do r f = then_do r g"
  using assms by (cases r) simp_all

lemma steps_Nil: "foldl then_do r [] = r"
  by simp

lemma steps_Inl [simp]: "foldl then_do (Inl e) fs = Inl e"
  by (induction fs) simp_all

lemma steps_Cons: "foldl then_do r (f # fs) = then_do r (\<lambda>x. foldl then_do (f x) fs)"
  by (cases r) simp_all

lemma steps_from: "foldl then_do r gs = then_do r (\<lambda>x. foldl then_do (Inr x) gs)"
  by (cases r) simp_all

lemma steps_append:
  "foldl then_do r (fs @ gs) = then_do (foldl then_do r fs) (\<lambda>x. foldl then_do (Inr x) gs)"
  unfolding foldl_append by (rule steps_from)

lemma snd_bnd: "snd (bnd m f) = then_do (snd m) (\<lambda>x. snd (f x))"
  by (cases m; cases "snd m") (auto simp: bnd_def split: prod.splits)

lemma outcome_preserve_boundary_stage:
  "snd (preserve_boundary_stage eng field) =
     (if flag_preserve_boundary field \<noteq> 0
      then then_do (clearConstraints eng (hierarchy field)) (\<lambda>cleared.
           then_do (derive_boundary_constraints (squaredNorm_positive eng) (normalize_vec eng)
                      cleared) (\<lambda>derived.
           then_do (propagateConstraints eng derived) (\<lambda>mRes.
           Inr (field\<lparr>hierarchy := mRes\<rparr>))))
      else Inr field)"
  by (simp add: preserve_boundary_stage_def snd_bnd del: bnd_simps)

lemma outcome_optimize_fields:
  "snd (optimize_fields eng field) =
     then_do (optimize_orientations eng (hierarchy field)) (\<lambda>mRes.
     then_do (ComputeOrientationSingularities eng (field\<lparr>hierarchy := mRes\<rparr>)) (\<lambda>field.
     then_do (if flag_adaptive_scale field = 1 then EstimateSlope eng field else Inr field)
       (\<lambda>field.
     then_do (optimize_scale eng (hierarchy field) (rho field) (flag_adaptive_scale field))
       (\<lambda>scaled.
     then_do (optimize_positions eng (fst scaled) 1) (\<lambda>mRes.
     Inr (field\<lparr>rho := snd scaled, flag_adaptive_scale := 1, hierarchy := mRes\<rparr>))))))"
  by (simp add: optimize_fields_def snd_bnd Let_def if_distrib [where f = snd]
      del: bnd_simps cong: if_cong)

lemma outcome_extract_quads:
  "snd (extract_quads eng field) =
     then_do (ComputePositionSingularities eng field) (ComputeIndexMap eng)"
  by (simp add: extract_quads_def snd_bnd del: bnd_simps)

lemma outcome_run_stages:
  "snd (run_stages eng verts nv fs nf target seed ps pb ads ags mcf) =
     then_do (LoadFromArrays eng (apply_flags (Parametrizer_new eng) seed ps pb ads ags mcf)
                verts nv fs nf) (\<lambda>field.
     then_do (Initialize eng field target) (\<lambda>field.
     then_do (snd (preserve_boundary_stage eng field)) (\<lambda>field.
     then_do (snd (optimize_fields eng field)) (\<lambda>field.
     snd (extract_quads eng field)))))"
  by (simp add: run_stages_def snd_bnd del: bnd_simps)

lemma outcome_run_quadriflow:
  "snd (run_quadriflow eng verts nv fs nf target seed ps pb ads ags mcf) =
     (if sint nv \<le> 0 \<or> sint nf \<le> 0 then Inl (runtime_error ''Input mesh is empty'')
      else if sint target \<le> 0 then Inl (runtime_error ''target_faces must be positive'')
      else then_do (snd (run_stages eng verts nv fs nf target seed ps pb ads ags mcf))
             extract_output)"
  by (simp add: run_quadriflow_def snd_bnd del: bnd_simps)

text \<open>The steps of the specification, part by part, against the stages of the source.\<close>

lemma spec_boundary_steps:
  assumes "flag_preserve_boundary field = (if pb then 1 else 0)"
  shows "foldl then_do (Inr field)
           (if pb
            then [on_hierarchy (clearConstraints eng),
                  on_hierarchy (derive_boundary_constraints (squaredNorm_positive eng)
                                  (normalize_vec eng)),
                  on_hierarchy (propagateConstraints eng)]
            else [])
         = snd (preserve_boundary_stage eng field)"
  using assms
  by (simp add: outcome_preserve_boundary_stage steps_Cons on_hierarchy_def then_do_assoc
      del: foldl_Cons)

lemma spec_scale_steps:
  "foldl then_do (Inr field)
     [\<lambda>field. then_do (optimize_scale eng (hierarchy field) (rho field)
                        (flag_adaptive_scale field))
                (\<lambda>scaled. Inr (field\<lparr>hierarchy := fst scaled, rho := snd scaled\<rparr>)),
      \<lambda>field. Inr (field\<lparr>flag_adaptive_scale := 1\<rparr>),
      \<lambda>field. on_hierarchy (\<lambda>mRes. optimize_positions eng mRes (flag_adaptive_scale field))
                field]
   = then_do (optimize_scale eng (hierarchy field) (rho field) (flag_adaptive_scale field))
       (\<lambda>scaled.
     then_do (optimize_positions eng (fst scaled) 1) (\<lambda>mRes.
     Inr (field\<lparr>rho := snd scaled, flag_adaptive_scale := 1, hierarchy := mRes\<rparr>)))"
  by (simp add: steps_Cons on_hierarchy_def then_do_assoc del: foldl_Cons)

lemma spec_optimize_steps:
  assumes k1: "keeps_flags (ComputeOrientationSingularities eng)"
    and k2: "keeps_flags (EstimateSlope eng)"
    and flag: "flag_adaptive_scale field = (if ads then 1 else 0)"
  shows "foldl then_do (Inr field)
           ([on_hierarchy (optimize_orientations eng), ComputeOrientationSingularities eng] @
            (if ads then [EstimateSlope eng] else []) @
            [\<lambda>field. then_do (optimize_scale eng (hierarchy field) (rho field)
                               (flag_adaptive_scale field))
                       (\<lambda>scaled. Inr (field\<lparr>hierarchy := fst scaled, rho := snd scaled\<rparr>)),
             \<lambda>field. Inr (field\<lparr>flag_adaptive_scale := 1\<rparr>),
             \<lambda>field. on_hierarchy
                        (\<lambda>mRes. optimize_positions eng mRes (flag_adaptive_scale field)) field])
         = snd (optimize_fields eng field)"
proof -
  let ?scale = "[\<lambda>field. then_do (optimize_scale eng (hierarchy field) (rho field)
                               (flag_adaptive_scale field))
                       (\<lambda>scaled. Inr (field\<lparr>hierarchy := fst scaled, rho := snd scaled\<rparr>)),
             \<lambda>field. Inr (field\<lparr>flag_adaptive_scale := 1\<rparr>),
             \<lambda>field. on_hierarchy
                        (\<lambda>mRes. optimize_positions eng mRes (flag_adaptive_scale field)) field]"
  let ?tail = "\<lambda>field. then_do (optimize_scale eng (hierarchy field) (rho field)
                                 (flag_adaptive_scale field)) (\<lambda>scaled.
     then_do (optimize_positions eng (fst scaled) 1) (\<lambda>mRes.
     Inr (field\<lparr>rho := snd scaled, flag_adaptive_scale := 1, hierarchy := mRes\<rparr>)))"
  have slope: "foldl then_do (Inr f1) ((if ads then [EstimateSlope eng] else []) @ ?scale)
        = then_do (if flag_adaptive_scale f1 = 1 then EstimateSlope eng f1 else Inr f1) ?tail"
    if "flag_adaptive_scale f1 = (if ads then 1 else 0)" for f1
    using that by (simp add: steps_Cons on_hierarchy_def then_do_assoc del: foldl_Cons)
  have "foldl then_do (Inr field)
           ([on_hierarchy (optimize_orientations eng), ComputeOrientationSingularities eng] @
            ((if ads then [EstimateSlope eng] else []) @ ?scale))
        = then_do (optimize_orientations eng (hierarchy field)) (\<lambda>mRes.
          then_do (ComputeOrientationSingularities eng (field\<lparr>hierarchy := mRes\<rparr>)) (\<lambda>f1.
          foldl then_do (Inr f1) ((if ads then [EstimateSlope eng] else []) @ ?scale)))"
    by (simp add: steps_append [of _ "[_, _]"] steps_Cons on_hierarchy_def then_do_assoc
        del: foldl_Cons append_Cons append_Nil foldl_append)
  also have "\<dots> = then_do (optimize_orientations eng (hierarchy field)) (\<lambda>mRes.
          then_do (ComputeOrientationSingularities eng (field\<lparr>hierarchy := mRes\<rparr>)) (\<lambda>f1.
          then_do (if flag_adaptive_scale f1 = 1 then EstimateSlope eng f1 else Inr f1) ?tail))"
  proof (intro then_do_eqI)
    fix mRes f1
    assume "ComputeOrientationSingularities eng (field\<lparr>hierarchy := mRes\<rparr>) = Inr f1"
    then have "flag_adaptive_scale f1 = (if ads then 1 else 0)"
      using keeps_flagsD [OF k1, of "field\<lparr>hierarchy := mRes\<rparr>" f1] flag by simp
    then show "foldl then_do (Inr f1) ((if ads then [EstimateSlope eng] else []) @ ?scale)
        = then_do (if flag_adaptive_scale f1 = 1 then EstimateSlope eng f1 else Inr f1) ?tail"
      by (rule slope)
  qed
  finally show ?thesis by (simp only: outcome_optimize_fields)
qed

lemma spec_extract_steps:
  "foldl then_do (Inr field) [ComputePositionSingularities eng, ComputeIndexMap eng]
     = snd (extract_quads eng field)"
  by (simp add: outcome_extract_quads steps_Cons del: foldl_Cons)

lemma spec_steps_parts:
  "spec_steps eng verts nv fs nf target seed ps pb ads ags mcf =
     [\<lambda>field. Inr (apply_flags field seed ps pb ads ags mcf),
      \<lambda>field. LoadFromArrays eng field verts nv fs nf,
      \<lambda>field. Initialize eng field target] @
     ((if pb
       then [on_hierarchy (clearConstraints eng),
             on_hierarchy (derive_boundary_constraints (squaredNorm_positive eng)
                             (normalize_vec eng)),
             on_hierarchy (propagateConstraints eng)]
       else []) @
      (([on_hierarchy (optimize_orientations eng), ComputeOrientationSingularities eng] @
        (if ads then [EstimateSlope eng] else []) @
        [\<lambda>field. then_do (optimize_scale eng (hierarchy field) (rho field)
                           (flag_adaptive_scale field))
                   (\<lambda>scaled. Inr (field\<lparr>hierarchy := fst scaled, rho := snd scaled\<rparr>)),
         \<lambda>field. Inr (field\<lparr>flag_adaptive_scale := 1\<rparr>),
         \<lambda>field. on_hierarchy
                    (\<lambda>mRes. optimize_positions eng mRes (flag_adaptive_scale field)) field]) @
       [ComputePositionSingularities eng, ComputeIndexMap eng]))"
  by (simp add: spec_steps_def)

lemma run_stages_refines_spec:
  assumes keeps: "solver_keeps_flags eng" and fresh: "fresh_flags_clear eng"
  shows "snd (run_stages eng verts nv fs nf target seed ps pb ads ags mcf)
           = spec_run eng verts nv fs nf target seed ps pb ads ags mcf"
proof -
  let ?f0 = "apply_flags (Parametrizer_new eng) seed ps pb ads ags mcf"
  let ?b = "if pb then 1 else 0 :: cint"
  let ?a = "if ads then 1 else 0 :: cint"
  let ?B = "if pb
       then [on_hierarchy (clearConstraints eng),
             on_hierarchy (derive_boundary_constraints (squaredNorm_positive eng)
                             (normalize_vec eng)),
             on_hierarchy (propagateConstraints eng)]
       else []"
  let ?O = "[on_hierarchy (optimize_orientations eng), ComputeOrientationSingularities eng] @
        (if ads then [EstimateSlope eng] else []) @
        [\<lambda>field. then_do (optimize_scale eng (hierarchy field) (rho field)
                           (flag_adaptive_scale field))
                   (\<lambda>scaled. Inr (field\<lparr>hierarchy := fst scaled, rho := snd scaled\<rparr>)),
         \<lambda>field. Inr (field\<lparr>flag_adaptive_scale := 1\<rparr>),
         \<lambda>field. on_hierarchy
                    (\<lambda>mRes. optimize_positions eng mRes (flag_adaptive_scale field)) field]"
  let ?E = "[ComputePositionSingularities eng, ComputeIndexMap eng]"
  from keeps have kn: "keeps_flags (NormalizeMesh eng)"
    and ki: "keeps_flags (\<lambda>field. Initialize eng field target)"
    and k1: "keeps_flags (ComputeOrientationSingularities eng)"
    and k2: "keeps_flags (EstimateSlope eng)"
    by (simp_all add: solver_keeps_flags_def)
  have f0: "flag_preserve_boundary ?f0 = ?b" "flag_adaptive_scale ?f0 = ?a"
    using fresh by (simp_all add: apply_flags_flags fresh_flags_clear_def)
  have rest: "foldl then_do (Inr f3) (?B @ (?O @ ?E))
        = then_do (snd (preserve_boundary_stage eng f3)) (\<lambda>field.
          then_do (snd (optimize_fields eng field)) (\<lambda>field. snd (extract_quads eng field)))"
    if f3: "flag_preserve_boundary f3 = ?b" "flag_adaptive_scale f3 = ?a" for f3
  proof -
    have "foldl then_do (Inr f3) (?B @ (?O @ ?E))
        = then_do (foldl then_do (Inr f3) ?B) (\<lambda>f4.
          then_do (foldl then_do (Inr f4) ?O) (\<lambda>f5. foldl then_do (Inr f5) ?E))"
      by (simp only: steps_append)
    also have "\<dots> = then_do (snd (preserve_boundary_stage eng f3)) (\<lambda>f4.
          then_do (foldl then_do (Inr f4) ?O) (\<lambda>f5. snd (extract_quads eng f5)))"
      by (simp only: spec_boundary_steps [OF f3(1)] spec_extract_steps)
    also have "\<dots> = then_do (snd (preserve_boundary_stage eng f3)) (\<lambda>f4.
          then_do (snd (optimize_fields eng f4)) (\<lambda>f5. snd (extract_quads eng f5)))"
    proof (rule then_do_eqI)
      fix f4 assume "snd (preserve_boundary_stage eng f3) = Inr f4"
      then have "flag_adaptive_scale f4 = ?a"
        using preserve_boundary_stage_flags [of eng f3 f4] f3 by simp
      then show "then_do (foldl then_do (Inr f4) ?O) (\<lambda>f5. snd (extract_quads eng f5))
          = then_do (snd (optimize_fields eng f4)) (\<lambda>f5. snd (extract_quads eng f5))"
        by (simp only: spec_optimize_steps [OF k1 k2])
    qed
    finally show ?thesis .
  qed
  have "spec_run eng verts nv fs nf target seed ps pb ads ags mcf
      = then_do (LoadFromArrays eng ?f0 verts nv fs nf) (\<lambda>f2.
        then_do (Initialize eng f2 target) (\<lambda>f3. foldl then_do (Inr f3) (?B @ (?O @ ?E))))"
    unfolding spec_run_def spec_steps_parts
    by (simp add: steps_append [of _ "[_, _, _]"] steps_Cons then_do_assoc
        del: foldl_Cons append_Cons append_Nil foldl_append append_assoc)
  also have "\<dots> = then_do (LoadFromArrays eng ?f0 verts nv fs nf) (\<lambda>f2.
        then_do (Initialize eng f2 target) (\<lambda>f3.
        then_do (snd (preserve_boundary_stage eng f3)) (\<lambda>field.
        then_do (snd (optimize_fields eng field)) (\<lambda>field. snd (extract_quads eng field)))))"
  proof (intro then_do_eqI)
    fix f2 f3
    assume x2: "LoadFromArrays eng ?f0 verts nv fs nf = Inr f2"
      and x3: "Initialize eng f2 target = Inr f3"
    have "flag_preserve_boundary f2 = ?b \<and> flag_adaptive_scale f2 = ?a"
      using LoadFromArrays_flags [OF kn x2] f0 by simp
    then have "flag_preserve_boundary f3 = ?b" "flag_adaptive_scale f3 = ?a"
      using keeps_flagsD [OF ki, of f2 f3] x3 by simp_all
    then show "foldl then_do (Inr f3) (?B @ (?O @ ?E))
        = then_do (snd (preserve_boundary_stage eng f3)) (\<lambda>field.
          then_do (snd (optimize_fields eng field)) (\<lambda>field. snd (extract_quads eng field)))"
      by (rule rest)
  qed
  finally show ?thesis by (simp only: outcome_run_stages)
qed

text \<open>
  Claim C5. With a library that leaves the flags alone and starts from cleared flags,
  every run enters its stages in the order of the specification: apply flags and seed,
  ingest and normalise, initialise the hierarchy for the target face count, then (only
  if boundary preservation is requested) clear, derive and propagate the constraints,
  each once, then optimise orientations, compute orientation singularities (always),
  estimate slope (only if the adaptive-scale flag is set), optimise scale, optimise
  positions, compute position singularities, compute the index map. The stages a run
  has entered are always an initial part of this list, and a run that returns a result
  has entered all of them. And the calls themselves are made in this order, none
  skipped, none twice: the outcome of the stages, a value or the failure of the first
  call that fails, is the outcome of \<open>spec_run\<close>, which performs the steps of the
  specification one after the other; the outcome of \<^verbatim>\<open>run_quadriflow\<close> is that of the
  precondition checks, then of \<open>spec_run\<close>, then of the extraction of the output.
\<close>

theorem stages_in_fixed_order:
  assumes keeps: "solver_keeps_flags eng" and fresh: "fresh_flags_clear eng"
  shows "prefix (fst (run_quadriflow eng verts nv fs nf target seed ps pb ads ags mcf))
           (spec_stage_order target pb ads) \<and>
         (\<forall>res. snd (run_quadriflow eng verts nv fs nf target seed ps pb ads ags mcf) = Inr res \<longrightarrow>
            fst (run_quadriflow eng verts nv fs nf target seed ps pb ads ags mcf)
              = spec_stage_order target pb ads) \<and>
         snd (run_stages eng verts nv fs nf target seed ps pb ads ags mcf)
           = spec_run eng verts nv fs nf target seed ps pb ads ags mcf \<and>
         snd (run_quadriflow eng verts nv fs nf target seed ps pb ads ags mcf)
           = (if sint nv \<le> 0 \<or> sint nf \<le> 0 then Inl (runtime_error ''Input mesh is empty'')
              else if sint target \<le> 0
              then Inl (runtime_error ''target_faces must be positive'')
              else then_do (spec_run eng verts nv fs nf target seed ps pb ads ags mcf)
                     extract_output)"
proof -
  note fo = run_stages_follows [OF keeps fresh, of verts nv fs nf target seed ps pb ads ags mcf]
  note re = run_stages_refines_spec
      [OF keeps fresh, of verts nv fs nf target seed ps pb ads ags mcf]
  have p: "prefix (fst (run_quadriflow eng verts nv fs nf target seed ps pb ads ags mcf))
             (spec_stage_order target pb ads)"
    using fo by (simp add: run_quadriflow_trace follows_def)
  have "fst (run_quadriflow eng verts nv fs nf target seed ps pb ads ags mcf)
          = spec_stage_order target pb ads"
    if "snd (run_quadriflow eng verts nv fs nf target seed ps pb ads ags mcf) = Inr res" for res
  proof -
    have "run_quadriflow eng verts nv fs nf target seed ps pb ads ags mcf
            = (fst (run_quadriflow eng verts nv fs nf target seed ps pb ads ags mcf), Inr res)"
      using that by (simp add: prod_eq_iff)
    then show ?thesis
      using fo by (elim run_quadriflow_Inr) (simp add: follows_def)
  qed
  moreover have "snd (run_quadriflow eng verts nv fs nf target seed ps pb ads ags mcf)
           = (if sint nv \<le> 0 \<or> sint nf \<le> 0 then Inl (runtime_error ''Input mesh is empty'')
              else if sint target \<le> 0
              then Inl (runtime_error ''target_faces must be positive'')
              else then_do (spec_run eng verts nv fs nf target seed ps pb ads ags mcf)
                     extract_output)"
    by (simp only: outcome_run_quadriflow re)
  ultimately show ?thesis using p re by blast
qed

subsection \<open>The run of the sample solver on one triangle\<close>

lemmas pipeline_eval = run_quadriflow_def run_stages_def LoadFromArrays_def sample_solver_def
  sample_object_def sample_initialize_def sample_clear_def apply_flags_def
  preserve_boundary_stage_def optimize_fields_def extract_quads_def extract_output_def
  output_vertex_def output_face_def vec_plus_def vec_times_def ret_def enter_def

lemma triangle_stages:
  "run_stages sample_solver triangle_verts 3 triangle_faces 1 10 0 False True False False False
     = (spec_stage_order 10 True False, Inr triangle_final)"
  by (simp add: pipeline_eval boundary_eval triangle_load spec_stage_order_def
      triangle_final_def triangle_constrained_def triangle_mRes_def)

lemma triangle_run:
  "run_quadriflow sample_solver triangle_verts 3 triangle_faces 1 10 0 False True False False False
     = (spec_stage_order 10 True False,
        Inr \<lparr>vertices = [1, 0, 0, 3, 0, 0, 1, 2, 0], faces = [0, 1, 2, 0],
             num_vertices = 3, num_faces = 1\<rparr>)"
  by (simp add: run_quadriflow_def triangle_stages)
     (simp add: extract_output_def output_vertex_def output_face_def vec_plus_def vec_times_def
        triangle_final_def sample_object_def upt_conv_Cons)

lemma sample_keeps_flags: "solver_keeps_flags sample_solver"
  by (auto simp: solver_keeps_flags_def keeps_flags_def sample_solver_def sample_initialize_def)

lemma sample_fresh: "fresh_flags_clear sample_solver"
  by (simp add: fresh_flags_clear_def sample_solver_def sample_object_def)

theorem stages_in_fixed_order_witness:
  "fresh_flags_clear sample_solver \<and>
   fst (run_quadriflow sample_solver triangle_verts 3 triangle_faces 1 10 0
          False True False False False)
     = [Apply_flags_and_seed, Load_and_normalize, Initialize_hierarchy 10,
        Clear_constraints, Derive_boundary_constraints, Propagate_constraints,
        Optimize_orientations, Compute_orientation_singularities,
        Optimize_scale 0, Optimize_positions 1,
        Compute_position_singularities, Compute_index_map] \<and>
   spec_run sample_solver triangle_verts 3 triangle_faces 1 10 0 False True False False False
     = Inr triangle_final \<and>
   then_do (spec_run sample_solver triangle_verts 3 triangle_faces 1 10 0
              False True False False False) extract_output
     = Inr \<lparr>vertices = [1, 0, 0, 3, 0, 0, 1, 2, 0], faces = [0, 1, 2, 0],
            num_vertices = 3, num_faces = 1\<rparr>"
proof -
  note inst = stages_in_fixed_order [OF sample_keeps_flags sample_fresh,
      of triangle_verts 3 triangle_faces 1 10 0 False True False False False]
  from inst
  have "fst (run_quadriflow sample_solver triangle_verts 3 triangle_faces 1 10 0
               False True False False False) = spec_stage_order 10 True False"
    by (simp add: triangle_run)
  then have order: "fst (run_quadriflow sample_solver triangle_verts 3 triangle_faces 1 10 0
          False True False False False)
     = [Apply_flags_and_seed, Load_and_normalize, Initialize_hierarchy 10,
        Clear_constraints, Derive_boundary_constraints, Propagate_constraints,
        Optimize_orientations, Compute_orientation_singularities,
        Optimize_scale 0, Optimize_positions 1,
        Compute_position_singularities, Compute_index_map]"
    by (simp add: spec_stage_order_def)
  from inst
  have run: "spec_run sample_solver triangle_verts 3 triangle_faces 1 10 0
               False True False False False = Inr triangle_final"
    by (simp add: triangle_stages)
  from inst
  have out: "then_do (spec_run sample_solver triangle_verts 3 triangle_faces 1 10 0
              False True False False False) extract_output
     = Inr \<lparr>vertices = [1, 0, 0, 3, 0, 0, 1, 2, 0], faces = [0, 1, 2, 0],
            num_vertices = 3, num_faces = 1\<rparr>"
    by (simp add: triangle_run)
  show ?thesis using sample_fresh order run out by blast
qed

subsection \<open>The boundary weights at the start of optimisation\<close>

lemma then_doE:
  assumes "then_do r f = Inr y"
  obtains x where "r = Inr x" "f x = Inr y"
  using assms by (auto simp: then_do_eq_Inr)


text \<open>A run whose stages all return, stage by stage.\<close>

lemma run_stages_chain:
  assumes run: "run_stages eng verts nv fs nf target seed ps pb ads ags mcf = (t, Inr final)"
  shows "\<exists>loaded field start entry mid.
           LoadFromArrays eng (apply_flags (Parametrizer_new eng) seed ps pb ads ags mcf)
             verts nv fs nf = Inr loaded \<and>
           Initialize eng loaded target = Inr field \<and>
           snd (preserve_boundary_stage eng field) = Inr start \<and>
           snd (optimize_fields eng start) = Inr entry \<and>
           ComputePositionSingularities eng entry = Inr mid \<and>
           ComputeIndexMap eng mid = Inr final"
proof -
  let ?f0 = "apply_flags (Parametrizer_new eng) seed ps pb ads ags mcf"
  from run have "snd (run_stages eng verts nv fs nf target seed ps pb ads ags mcf) = Inr final"
    by simp
  then have "then_do (LoadFromArrays eng ?f0 verts nv fs nf) (\<lambda>field.
     then_do (Initialize eng field target) (\<lambda>field.
     then_do (snd (preserve_boundary_stage eng field)) (\<lambda>field.
     then_do (snd (optimize_fields eng field)) (\<lambda>field.
     then_do (ComputePositionSingularities eng field) (ComputeIndexMap eng))))) = Inr final"
    by (simp only: outcome_run_stages outcome_extract_quads)
  then obtain f2 where x2: "LoadFromArrays eng ?f0 verts nv fs nf = Inr f2"
    and r2: "then_do (Initialize eng f2 target) (\<lambda>field.
     then_do (snd (preserve_boundary_stage eng field)) (\<lambda>field.
     then_do (snd (optimize_fields eng field)) (\<lambda>field.
     then_do (ComputePositionSingularities eng field) (ComputeIndexMap eng)))) = Inr final"
    by (rule then_doE)
  from r2 obtain f3 where x3: "Initialize eng f2 target = Inr f3"
    and r3: "then_do (snd (preserve_boundary_stage eng f3)) (\<lambda>field.
     then_do (snd (optimize_fields eng field)) (\<lambda>field.
     then_do (ComputePositionSingularities eng field) (ComputeIndexMap eng))) = Inr final"
    by (rule then_doE)
  from r3 obtain f4 where x4: "snd (preserve_boundary_stage eng f3) = Inr f4"
    and r4: "then_do (snd (optimize_fields eng f4)) (\<lambda>field.
     then_do (ComputePositionSingularities eng field) (ComputeIndexMap eng)) = Inr final"
    by (rule then_doE)
  from r4 obtain f5 where x5: "snd (optimize_fields eng f4) = Inr f5"
    and r5: "then_do (ComputePositionSingularities eng f5) (ComputeIndexMap eng) = Inr final"
    by (rule then_doE)
  from r5 obtain f6 where x6: "ComputePositionSingularities eng f5 = Inr f6"
    and x7: "ComputeIndexMap eng f6 = Inr final"
    by (rule then_doE)
  from x2 x3 x4 x5 x6 x7 show ?thesis by blast
qed







subsection \<open>The adaptive-scale flag\<close>

lemma bnd_trace_mem:
  "e \<in> set (fst (bnd m f)) \<Longrightarrow> e \<in> set (fst m) \<or> (\<exists>x. snd m = Inr x \<and> e \<in> set (fst (f x)))"
  by (cases m; cases "snd m") (auto simp: bnd_def split: prod.splits)

lemma enter_trace_mem: "e \<in> set (fst (enter st r)) \<Longrightarrow> e = st"
  by (simp add: enter_def)

lemma ret_trace_mem: "e \<in> set (fst (ret x)) \<Longrightarrow> False"
  by (simp add: ret_def)

lemma optimize_fields_positions_arg:
  "Optimize_positions a \<in> set (fst (optimize_fields eng field)) \<Longrightarrow> a = 1"
  unfolding optimize_fields_def Let_def
  by (auto simp del: bnd_simps dest!: bnd_trace_mem enter_trace_mem ret_trace_mem split: if_splits)

lemma preserve_boundary_stage_no_positions:
  "Optimize_positions a \<notin> set (fst (preserve_boundary_stage eng field))"
  unfolding preserve_boundary_stage_def
  by (auto simp del: bnd_simps dest!: bnd_trace_mem enter_trace_mem ret_trace_mem split: if_splits)

lemma extract_quads_no_positions:
  "Optimize_positions a \<notin> set (fst (extract_quads eng field))"
  unfolding extract_quads_def
  by (auto simp del: bnd_simps dest!: bnd_trace_mem enter_trace_mem ret_trace_mem)

lemma run_stages_positions_arg:
  "Optimize_positions a \<in> set (fst (run_stages eng verts nv fs nf target seed ps pb ads ags mcf))
     \<Longrightarrow> a = 1"
  unfolding run_stages_def
  by (auto simp del: bnd_simps dest!: bnd_trace_mem enter_trace_mem
      simp: preserve_boundary_stage_no_positions extract_quads_no_positions
      dest: optimize_fields_positions_arg)

lemma optimize_fields_flag:
  "snd (optimize_fields eng field) = Inr field' \<Longrightarrow> flag_adaptive_scale field' = 1"
  unfolding optimize_fields_def Let_def
  by (auto simp del: bnd_simps elim!: snd_bnd_Inr)

lemma bnd_eq_Inr:
  "bnd m f = (t, Inr y) \<longleftrightarrow> (\<exists>t1 x t2. m = (t1, Inr x) \<and> f x = (t2, Inr y) \<and> t = t1 @ t2)"
  by (cases m; cases "snd m") (auto simp: bnd_def split: prod.splits)

lemma optimize_fields_trace:
  assumes "optimize_fields eng field = (t, Inr field')"
  shows "\<exists>a. t = [Optimize_orientations, Compute_orientation_singularities,
                   Optimize_scale a, Optimize_positions 1] \<or>
              t = [Optimize_orientations, Compute_orientation_singularities, Estimate_slope,
                   Optimize_scale a, Optimize_positions 1]"
  using assms unfolding optimize_fields_def Let_def enter_def ret_def
  by (auto simp: bnd_eq_Inr simp del: bnd_simps split: if_splits)

lemma run_stages_hands_forced_flag:
  assumes "run_stages eng verts nv fs nf target seed ps pb ads ags mcf = (t, Inr final)"
  shows "\<exists>field. flag_adaptive_scale field = 1 \<and> snd (extract_quads eng field) = Inr final"
proof -
  from assms obtain f4 t4 f5 t5 where o: "optimize_fields eng f4 = (t4, Inr f5)"
    and e: "extract_quads eng f5 = (t5, Inr final)"
    unfolding run_stages_def by (auto simp: bnd_eq_Inr simp del: bnd_simps)
  from o have "flag_adaptive_scale f5 = 1" using optimize_fields_flag [of eng f4 f5] by simp
  with e show ?thesis by (intro exI [of _ f5]) simp
qed

lemma run_stages_last_stages:
  assumes run: "run_stages eng verts nv fs nf target seed ps pb ads ags mcf = (t, Inr final)"
  shows "\<exists>loaded field start entry mid.
           LoadFromArrays eng (apply_flags (Parametrizer_new eng) seed ps pb ads ags mcf)
             verts nv fs nf = Inr loaded \<and>
           Initialize eng loaded target = Inr field \<and>
           snd (preserve_boundary_stage eng field) = Inr start \<and>
           snd (optimize_fields eng start) = Inr entry \<and> flag_adaptive_scale entry = 1 \<and>
           ComputePositionSingularities eng entry = Inr mid \<and>
           (keeps_flags (ComputePositionSingularities eng) \<longrightarrow> flag_adaptive_scale mid = 1) \<and>
           ComputeIndexMap eng mid = Inr final"
proof -
  from run_stages_chain [OF run]
  obtain f2 f3 f4 f5 mid where
    x2: "LoadFromArrays eng (apply_flags (Parametrizer_new eng) seed ps pb ads ags mcf)
           verts nv fs nf = Inr f2"
    and x3: "Initialize eng f2 target = Inr f3"
    and x4: "snd (preserve_boundary_stage eng f3) = Inr f4"
    and so: "snd (optimize_fields eng f4) = Inr f5"
    and m: "ComputePositionSingularities eng f5 = Inr mid"
    and i: "ComputeIndexMap eng mid = Inr final"
    by blast
  from so have flag: "flag_adaptive_scale f5 = 1" by (rule optimize_fields_flag)
  have "flag_adaptive_scale mid = 1" if "keeps_flags (ComputePositionSingularities eng)"
    using keeps_flagsD [OF that m] flag by simp
  with x2 x3 x4 so flag m i show ?thesis by blast
qed

text \<open>
  Claim C2, as amended. For every input and whatever the caller passes as adaptive-scale:
  the lines from orientation optimisation to position optimisation call scale
  optimisation with the flag of the object and then, with no call in between, position
  optimisation with the value 1 on the hierarchy that scale optimisation returned, and
  they return the object with the adaptive-scale flag set to 1 (the first conjunct gives
  their outcome as this sequence of calls). Position optimisation is recorded with no
  other value than 1, directly after scale optimisation. The forced flag is not confined
  to position optimisation: the last two stages are the position singularities and then
  the index map on the object the former returns; in every run whose stages all return
  (ingestion, initialisation, boundary stage, then the lines above), the position
  singularities are computed on the object that position optimisation left, whose flag
  is 1, and the index map on the object the position singularities return, whose flag is
  1 if that routine leaves the flags as they are.
\<close>

theorem adaptive_scale_forced_after_scale:
  "snd (optimize_fields eng field) =
     then_do (optimize_orientations eng (hierarchy field)) (\<lambda>mRes.
     then_do (ComputeOrientationSingularities eng (field\<lparr>hierarchy := mRes\<rparr>)) (\<lambda>field.
     then_do (if flag_adaptive_scale field = 1 then EstimateSlope eng field else Inr field)
       (\<lambda>field.
     then_do (optimize_scale eng (hierarchy field) (rho field) (flag_adaptive_scale field))
       (\<lambda>scaled.
     then_do (optimize_positions eng (fst scaled) 1) (\<lambda>mRes.
     Inr (field\<lparr>rho := snd scaled, flag_adaptive_scale := 1, hierarchy := mRes\<rparr>)))))) \<and>
   (\<forall>a. Optimize_positions a
          \<in> set (fst (run_quadriflow eng verts nv fs nf target seed ps pb ads ags mcf)) \<longrightarrow> a = 1) \<and>
   (\<forall>field t field'. optimize_fields eng field = (t, Inr field') \<longrightarrow>
      flag_adaptive_scale field' = 1 \<and>
      (\<exists>a. t = [Optimize_orientations, Compute_orientation_singularities,
                 Optimize_scale a, Optimize_positions 1] \<or>
            t = [Optimize_orientations, Compute_orientation_singularities, Estimate_slope,
                 Optimize_scale a, Optimize_positions 1])) \<and>
   snd (extract_quads eng field) =
     then_do (ComputePositionSingularities eng field) (ComputeIndexMap eng) \<and>
   (\<forall>t final. run_stages eng verts nv fs nf target seed ps pb ads ags mcf = (t, Inr final) \<longrightarrow>
      (\<exists>field. flag_adaptive_scale field = 1 \<and> snd (extract_quads eng field) = Inr final)) \<and>
   (\<forall>t final. run_stages eng verts nv fs nf target seed ps pb ads ags mcf = (t, Inr final) \<longrightarrow>
      (\<exists>loaded field start entry mid.
         LoadFromArrays eng (apply_flags (Parametrizer_new eng) seed ps pb ads ags mcf)
           verts nv fs nf = Inr loaded \<and>
         Initialize eng loaded target = Inr field \<and>
         snd (preserve_boundary_stage eng field) = Inr start \<and>
         snd (optimize_fields eng start) = Inr entry \<and> flag_adaptive_scale entry = 1 \<and>
         ComputePositionSingularities eng entry = Inr mid \<and>
         (keeps_flags (ComputePositionSingularities eng) \<longrightarrow> flag_adaptive_scale mid = 1) \<and>
         ComputeIndexMap eng mid = Inr final))"
proof (intro conjI allI impI)
  show "snd (optimize_fields eng field) =
     then_do (optimize_orientations eng (hierarchy field)) (\<lambda>mRes.
     then_do (ComputeOrientationSingularities eng (field\<lparr>hierarchy := mRes\<rparr>)) (\<lambda>field.
     then_do (if flag_adaptive_scale field = 1 then EstimateSlope eng field else Inr field)
       (\<lambda>field.
     then_do (optimize_scale eng (hierarchy field) (rho field) (flag_adaptive_scale field))
       (\<lambda>scaled.
     then_do (optimize_positions eng (fst scaled) 1) (\<lambda>mRes.
     Inr (field\<lparr>rho := snd scaled, flag_adaptive_scale := 1, hierarchy := mRes\<rparr>))))))"
    by (rule outcome_optimize_fields)
next
  fix a
  assume "Optimize_positions a
            \<in> set (fst (run_quadriflow eng verts nv fs nf target seed ps pb ads ags mcf))"
  then show "a = 1"
    using run_stages_positions_arg [of a eng verts nv fs nf target seed ps pb ads ags mcf]
    by (simp add: run_quadriflow_trace split: if_splits)
next
  fix field t field'
  assume "optimize_fields eng field = (t, Inr field')"
  then show "flag_adaptive_scale field' = 1"
    using optimize_fields_flag [of eng field field'] by simp
next
  fix field t field'
  assume "optimize_fields eng field = (t, Inr field')"
  then show "\<exists>a. t = [Optimize_orientations, Compute_orientation_singularities,
                 Optimize_scale a, Optimize_positions 1] \<or>
            t = [Optimize_orientations, Compute_orientation_singularities, Estimate_slope,
                 Optimize_scale a, Optimize_positions 1]"
    by (rule optimize_fields_trace)
next
  show "snd (extract_quads eng field) =
     then_do (ComputePositionSingularities eng field) (ComputeIndexMap eng)"
    by (rule outcome_extract_quads)
next
  fix t final
  assume "run_stages eng verts nv fs nf target seed ps pb ads ags mcf = (t, Inr final)"
  then show "\<exists>field. flag_adaptive_scale field = 1 \<and> snd (extract_quads eng field) = Inr final"
    by (rule run_stages_hands_forced_flag)
next
  fix t final
  assume "run_stages eng verts nv fs nf target seed ps pb ads ags mcf = (t, Inr final)"
  then show "\<exists>loaded field start entry mid.
         LoadFromArrays eng (apply_flags (Parametrizer_new eng) seed ps pb ads ags mcf)
           verts nv fs nf = Inr loaded \<and>
         Initialize eng loaded target = Inr field \<and>
         snd (preserve_boundary_stage eng field) = Inr start \<and>
         snd (optimize_fields eng start) = Inr entry \<and> flag_adaptive_scale entry = 1 \<and>
         ComputePositionSingularities eng entry = Inr mid \<and>
         (keeps_flags (ComputePositionSingularities eng) \<longrightarrow> flag_adaptive_scale mid = 1) \<and>
         ComputeIndexMap eng mid = Inr final"
    by (rule run_stages_last_stages)
qed

lemma sample_optimize_fields:
  "optimize_fields sample_solver sample_object
     = ([Optimize_orientations, Compute_orientation_singularities,
         Optimize_scale 0, Optimize_positions 1],
        Inr (sample_object\<lparr>flag_adaptive_scale := 1\<rparr>))"
  by (simp add: optimize_fields_def sample_solver_def sample_object_def ret_def)

theorem adaptive_scale_forced_after_scale_witness:
  "Optimize_positions 1
     \<in> set (fst (run_quadriflow sample_solver triangle_verts 3 triangle_faces 1 10 0
                    False True False False False)) \<and>
   optimize_fields sample_solver sample_object
     = ([Optimize_orientations, Compute_orientation_singularities,
         Optimize_scale 0, Optimize_positions 1],
        Inr (sample_object\<lparr>flag_adaptive_scale := 1\<rparr>)) \<and>
   then_do (optimize_positions sample_solver (hierarchy sample_object) 1)
     (\<lambda>mRes. Inr (sample_object\<lparr>rho := rho sample_object, flag_adaptive_scale := 1,
                                   hierarchy := mRes\<rparr>))
     = Inr (sample_object\<lparr>flag_adaptive_scale := 1\<rparr>) \<and>
   flag_adaptive_scale (sample_object\<lparr>flag_adaptive_scale := 1\<rparr>) = 1 \<and>
   run_stages sample_solver triangle_verts 3 triangle_faces 1 10 0 False True False False False
     = (spec_stage_order 10 True False, Inr triangle_final) \<and>
   (\<exists>field. flag_adaptive_scale field = 1 \<and>
      snd (extract_quads sample_solver field) = Inr triangle_final) \<and>
   (\<exists>entry mid. flag_adaptive_scale entry = 1 \<and>
      ComputePositionSingularities sample_solver entry = Inr mid \<and>
      flag_adaptive_scale mid = 1 \<and>
      ComputeIndexMap sample_solver mid = Inr triangle_final)"
proof -
  have m: "Optimize_positions 1
     \<in> set (fst (run_quadriflow sample_solver triangle_verts 3 triangle_faces 1 10 0
                    False True False False False))"
    by (simp add: triangle_run spec_stage_order_def)
  have k: "keeps_flags (ComputePositionSingularities sample_solver)"
    by (simp add: keeps_flags_def sample_solver_def)
  note inst = adaptive_scale_forced_after_scale
      [where eng = sample_solver and field = sample_object and verts = triangle_verts
         and nv = 3 and fs = triangle_faces and nf = 1 and target = 10 and seed = 0
         and ps = False and pb = True and ads = False and ags = False and mcf = False]
  have calls: "then_do (optimize_positions sample_solver (hierarchy sample_object) 1)
     (\<lambda>mRes. Inr (sample_object\<lparr>rho := rho sample_object, flag_adaptive_scale := 1,
                                   hierarchy := mRes\<rparr>))
     = Inr (sample_object\<lparr>flag_adaptive_scale := 1\<rparr>)"
    using inst [THEN conjunct1]
    by (simp add: sample_optimize_fields) (simp add: sample_solver_def sample_object_def)
  from inst k triangle_stages
  have last: "\<exists>entry mid. flag_adaptive_scale entry = 1 \<and>
      ComputePositionSingularities sample_solver entry = Inr mid \<and>
      flag_adaptive_scale mid = 1 \<and>
      ComputeIndexMap sample_solver mid = Inr triangle_final"
    by blast
  from inst triangle_stages
  have hands: "\<exists>field. flag_adaptive_scale field = 1 \<and>
      snd (extract_quads sample_solver field) = Inr triangle_final"
    by blast
  have flag: "flag_adaptive_scale (sample_object\<lparr>flag_adaptive_scale := 1\<rparr>) = 1" by simp
  show ?thesis
    using m sample_optimize_fields calls flag triangle_stages hands last by blast
qed

text \<open>
  Claim C2 as stated ("the override affects position optimisation only") fails: the
  caller leaves adaptive-scale off, the object that reaches the last two stages has the
  flag 1, and with a solver whose index map reads the flag these stages give another
  result than on the same object with the caller's value; the run returns the vertex
  the index map produces for flag 1.
\<close>

theorem adaptive_scale_override_counterexample:
  "flag_adaptive_scale sample_object = 0 \<and>
   optimize_fields flag_probe_solver sample_object
     = ([Optimize_orientations, Compute_orientation_singularities,
         Optimize_scale 0, Optimize_positions 1],
        Inr (sample_object\<lparr>flag_adaptive_scale := 1\<rparr>)) \<and>
   snd (extract_quads flag_probe_solver (sample_object\<lparr>flag_adaptive_scale := 1\<rparr>))
     \<noteq> snd (extract_quads flag_probe_solver (sample_object\<lparr>flag_adaptive_scale := 0\<rparr>)) \<and>
   snd (run_quadriflow flag_probe_solver triangle_verts 3 triangle_faces 1 10 0
          False False False False False)
     = Inr \<lparr>vertices = [3, 0, 0], faces = [0, 0, 0, 0], num_vertices = 1, num_faces = 1\<rparr>"
proof -
  have a: "flag_adaptive_scale sample_object = 0" by (simp add: sample_object_def)
  have b: "optimize_fields flag_probe_solver sample_object
     = ([Optimize_orientations, Compute_orientation_singularities,
         Optimize_scale 0, Optimize_positions 1],
        Inr (sample_object\<lparr>flag_adaptive_scale := 1\<rparr>))"
    by (simp add: optimize_fields_def flag_probe_solver_def sample_solver_def sample_object_def
        ret_def)
  have c: "snd (extract_quads flag_probe_solver (sample_object\<lparr>flag_adaptive_scale := 1\<rparr>))
     \<noteq> snd (extract_quads flag_probe_solver (sample_object\<lparr>flag_adaptive_scale := 0\<rparr>))"
    by (simp add: extract_quads_def flag_probe_solver_def sample_solver_def sample_object_def
        enter_def)
  have d: "snd (run_quadriflow flag_probe_solver triangle_verts 3 triangle_faces 1 10 0
          False False False False False)
     = Inr \<lparr>vertices = [3, 0, 0], faces = [0, 0, 0, 0], num_vertices = 1, num_faces = 1\<rparr>"
    by (simp add: pipeline_eval flag_probe_solver_def triangle_load upt_conv_Cons)
  from a b c d show ?thesis by blast
qed

subsection \<open>Errors\<close>

text \<open>
  Claim C6. With a vertex count or a face count that is zero or negative the run ends
  with the error "Input mesh is empty" and has entered no stage; with positive counts
  and a target face count that is zero or negative it ends with "target_faces must be
  positive", again before any stage. A run whose stages all return but leave no output
  vertex or no output face ends with the error "QuadriFlow produced an empty mesh",
  which differs from both precondition errors.
\<close>

theorem precondition_and_empty_result_errors:
  "(sint nv \<le> 0 \<or> sint nf \<le> 0 \<longrightarrow>
      run_quadriflow eng verts nv fs nf target seed ps pb ads ags mcf
        = ([], Inl (runtime_error ''Input mesh is empty''))) \<and>
   (0 < sint nv \<and> 0 < sint nf \<and> sint target \<le> 0 \<longrightarrow>
      run_quadriflow eng verts nv fs nf target seed ps pb ads ags mcf
        = ([], Inl (runtime_error ''target_faces must be positive''))) \<and>
   (0 < sint nv \<and> 0 < sint nf \<and> 0 < sint target \<and>
    run_stages eng verts nv fs nf target seed ps pb ads ags mcf = (t, Inr field) \<and>
    (O_compact field = [] \<or> F_compact field = []) \<longrightarrow>
      run_quadriflow eng verts nv fs nf target seed ps pb ads ags mcf
        = (t, Inl (runtime_error ''QuadriFlow produced an empty mesh''))) \<and>
   runtime_error ''QuadriFlow produced an empty mesh'' \<noteq> runtime_error ''Input mesh is empty'' \<and>
   runtime_error ''QuadriFlow produced an empty mesh''
     \<noteq> runtime_error ''target_faces must be positive''"
  by (auto simp: run_quadriflow_def extract_output_def)

lemma barren_stages:
  "run_stages barren_solver triangle_verts 3 triangle_faces 1 10 0 False True False False False
     = (spec_stage_order 10 True False, Inr triangle_barren)"
  by (simp add: pipeline_eval boundary_eval triangle_load spec_stage_order_def barren_solver_def
      triangle_barren_def triangle_final_def triangle_constrained_def triangle_mRes_def)

theorem precondition_and_empty_result_errors_witness:
  "sint (0 :: cint) \<le> 0 \<and>
   run_quadriflow sample_solver triangle_verts 0 triangle_faces 1 10 0 False True False False False
     = ([], Inl (runtime_error ''Input mesh is empty'')) \<and>
   0 < sint (3 :: cint) \<and> 0 < sint (1 :: cint) \<and> sint (- 5 :: cint) \<le> 0 \<and>
   run_quadriflow sample_solver triangle_verts 3 triangle_faces 1 (- 5) 0 False True False False False
     = ([], Inl (runtime_error ''target_faces must be positive'')) \<and>
   0 < sint (10 :: cint) \<and>
   run_stages barren_solver triangle_verts 3 triangle_faces 1 10 0 False True False False False
     = (spec_stage_order 10 True False, Inr triangle_barren) \<and>
   O_compact triangle_barren = [] \<and>
   run_quadriflow barren_solver triangle_verts 3 triangle_faces 1 10 0 False True False False False
     = (spec_stage_order 10 True False, Inl (runtime_error ''QuadriFlow produced an empty mesh''))"
proof -
  have h1: "sint (0 :: cint) \<le> 0" by simp
  have h2a: "0 < sint (3 :: cint)" by simp
  have h2b: "0 < sint (1 :: cint)" by simp
  have h2c: "sint (- 5 :: cint) \<le> 0" by simp
  have h3: "0 < sint (10 :: cint)" by simp
  have h4: "O_compact triangle_barren = []" by (simp add: triangle_barren_def)
  have r1: "run_quadriflow sample_solver triangle_verts 0 triangle_faces 1 10 0
              False True False False False = ([], Inl (runtime_error ''Input mesh is empty''))"
    apply (rule precondition_and_empty_result_errors
        [of 0 1 sample_solver triangle_verts triangle_faces 10 0 False True False False False,
         THEN conjunct1, THEN mp])
    apply (rule disjI1)
    apply (rule h1)
    done
  have r2: "run_quadriflow sample_solver triangle_verts 3 triangle_faces 1 (- 5) 0
              False True False False False
            = ([], Inl (runtime_error ''target_faces must be positive''))"
    apply (rule precondition_and_empty_result_errors
        [of 3 1 sample_solver triangle_verts triangle_faces "- 5" 0 False True False False False,
         THEN conjunct2, THEN conjunct1, THEN mp])
    apply (intro conjI h2a h2b h2c)
    done
  have r3: "run_quadriflow barren_solver triangle_verts 3 triangle_faces 1 10 0
              False True False False False
            = (spec_stage_order 10 True False,
               Inl (runtime_error ''QuadriFlow produced an empty mesh''))"
    apply (rule precondition_and_empty_result_errors
        [of 3 1 barren_solver triangle_verts triangle_faces 10 0 False True False False False
            "spec_stage_order 10 True False" triangle_barren,
         THEN conjunct2, THEN conjunct2, THEN conjunct1, THEN mp])
    apply (intro conjI h2a h2b h3 barren_stages)
    apply (rule disjI1)
    apply (rule h4)
    done
  show ?thesis
    by (intro conjI h1 r1 h2a h2b h2c r2 h3 barren_stages h4 r3)
qed

subsection \<open>The output arrays\<close>

lemma sint_word_of_nat:
  assumes "n < 2 ^ 31"
  shows "sint (word_of_nat n :: cint) = int n"
proof -
  have "n < 2 ^ 32" using assms by simp
  then have u: "unat (word_of_nat n :: cint) = n" by (rule unat_index)
  have "uint (word_of_nat n :: cint) = int (unat (word_of_nat n :: cint))" by simp
  then have ui: "uint (word_of_nat n :: cint) = int n" using u by simp
  moreover have "int n < 2147483648" using assms by simp
  ultimately have "sint (word_of_nat n :: cint) = uint (word_of_nat n :: cint)"
    by (intro sint_small) simp
  with ui show ?thesis by simp
qed

lemma map_nth_upt: "map (\<lambda>i. g (xs ! i)) [0..<length xs] = map g xs"
  by (rule nth_equalityI) simp_all

lemma concat_fixed_nth:
  assumes "\<forall>x\<in>set xs. length (g x) = n" "i < length xs" "k < n"
  shows "concat (map g xs) ! (n * i + k) = g (xs ! i) ! k"
  using assms
proof (induction xs arbitrary: i)
  case Nil
  then show ?case by simp
next
  case (Cons x xs)
  show ?case
  proof (cases i)
    case 0
    then show ?thesis using Cons.prems by (simp add: nth_append)
  next
    case (Suc j)
    then have "concat (map g (x # xs)) ! (n * i + k) = concat (map g xs) ! (n * j + k)"
      using Cons.prems by (simp add: nth_append)
    then show ?thesis using Cons.IH [of j] Cons.prems Suc by simp
  qed
qed

lemma length_concat_fixed:
  "\<forall>x\<in>set xs. length (g x) = n \<Longrightarrow> length (concat (map g xs)) = n * length xs"
  by (induction xs) simp_all

lemma extract_output_vertices:
  assumes "extract_output field = Inr res" and "3 * length (O_compact field) < 2 ^ 31"
  shows "sint (num_vertices res) = int (length (O_compact field)) \<and>
         vertices res = concat (map (denormalized (normalize_scale field) (normalize_offset field))
                                  (O_compact field))"
proof -
  have n: "length (O_compact field) < 2 ^ 31" using assms(2) by simp
  have s: "sint (word_of_nat (length (O_compact field)) :: cint) = int (length (O_compact field))"
    using n by (rule sint_word_of_nat)
  have ov: "output_vertex field = (\<lambda>i. denormalized (normalize_scale field) (normalize_offset field)
                                        (O_compact field ! i))"
    by (rule ext) (simp add: output_vertex_def denormalized_def)
  from assms(1) have nv: "num_vertices res = word_of_nat (length (O_compact field))"
    and vs: "vertices res = concat (map (output_vertex field)
               [0..<nat (sint (word_of_nat (length (O_compact field)) :: cint))])"
    by (auto simp: extract_output_def Let_def split: if_splits)
  show ?thesis using nv vs s by (simp add: ov map_nth_upt)
qed

lemma extract_output_faces:
  assumes "extract_output field = Inr res" and "4 * length (F_compact field) < 2 ^ 31"
  shows "sint (num_faces res) = int (length (F_compact field)) \<and>
         faces res = concat (map quad_indices (F_compact field))"
proof -
  have n: "length (F_compact field) < 2 ^ 31" using assms(2) by simp
  have s: "sint (word_of_nat (length (F_compact field)) :: cint) = int (length (F_compact field))"
    using n by (rule sint_word_of_nat)
  have ov: "output_face field = (\<lambda>i. quad_indices (F_compact field ! i))"
    by (rule ext) (simp add: output_face_def quad_indices_def)
  from assms(1) have nv: "num_faces res = word_of_nat (length (F_compact field))"
    and vs: "faces res = concat (map (output_face field)
               [0..<nat (sint (word_of_nat (length (F_compact field)) :: cint))])"
    by (auto simp: extract_output_def Let_def split: if_splits)
  show ?thesis using nv vs s by (simp add: ov map_nth_upt)
qed

lemma length_denormalized [simp]: "length (denormalized s off p) = 3"
  by (simp add: denormalized_def split: prod.splits)

lemma length_quad_indices [simp]: "length (quad_indices q) = 4"
  by (simp add: quad_indices_def split: prod.splits)

text \<open>
  Claim C7. For every run that returns a result, all stages have returned an object
  \<open>field\<close>, and the result is read off its compact output: the vertex array is the
  concatenation, vertex by vertex, of the three components of
  \<open>position * normalize_scale + normalize_offset\<close>, so that entries \<open>3 * i\<close>,
  \<open>3 * i + 1\<close>, \<open>3 * i + 2\<close> are those of compact vertex \<open>i\<close>; the face array is
  the concatenation of the four indices of each compact face in the order the solver
  gave them; and the two counts are the lengths of the compact sequences. The counts and
  the array offsets are C++ \<^verbatim>\<open>int\<close>s: this is stated for outputs whose flat arrays
  they can index, with fewer than \<open>2^31\<close> entries.
\<close>

theorem output_is_denormalized_compact_mesh:
  assumes run: "run_quadriflow eng verts nv fs nf target seed ps pb ads ags mcf = (t, Inr res)"
  shows "\<exists>field. run_stages eng verts nv fs nf target seed ps pb ads ags mcf = (t, Inr field) \<and>
    (3 * length (O_compact field) < 2 ^ 31 \<longrightarrow>
       sint (num_vertices res) = int (length (O_compact field)) \<and>
       vertices res = concat (map (denormalized (normalize_scale field) (normalize_offset field))
                                (O_compact field)) \<and>
       (\<forall>i<length (O_compact field). \<forall>k<3.
          vertices res ! (3 * i + k)
            = denormalized (normalize_scale field) (normalize_offset field) (O_compact field ! i) ! k)) \<and>
    (4 * length (F_compact field) < 2 ^ 31 \<longrightarrow>
       sint (num_faces res) = int (length (F_compact field)) \<and>
       faces res = concat (map quad_indices (F_compact field)) \<and>
       (\<forall>i<length (F_compact field). \<forall>k<4.
          faces res ! (4 * i + k) = quad_indices (F_compact field ! i) ! k))"
proof -
  from run obtain field
    where st: "run_stages eng verts nv fs nf target seed ps pb ads ags mcf = (t, Inr field)"
      and ex: "extract_output field = Inr res"
    by (rule run_quadriflow_Inr)
  have v: "sint (num_vertices res) = int (length (O_compact field)) \<and>
       vertices res = concat (map (denormalized (normalize_scale field) (normalize_offset field))
                                (O_compact field)) \<and>
       (\<forall>i<length (O_compact field). \<forall>k<3.
          vertices res ! (3 * i + k)
            = denormalized (normalize_scale field) (normalize_offset field) (O_compact field ! i) ! k)"
    if "3 * length (O_compact field) < 2 ^ 31"
    using extract_output_vertices [OF ex that]
    by (simp add: concat_fixed_nth)
  have f: "sint (num_faces res) = int (length (F_compact field)) \<and>
       faces res = concat (map quad_indices (F_compact field)) \<and>
       (\<forall>i<length (F_compact field). \<forall>k<4.
          faces res ! (4 * i + k) = quad_indices (F_compact field ! i) ! k)"
    if "4 * length (F_compact field) < 2 ^ 31"
    using extract_output_faces [OF ex that]
    by (simp add: concat_fixed_nth)
  from st v f show ?thesis by blast
qed

theorem output_is_denormalized_compact_mesh_witness:
  "run_quadriflow sample_solver triangle_verts 3 triangle_faces 1 10 0 False True False False False
     = (spec_stage_order 10 True False,
        Inr \<lparr>vertices = [1, 0, 0, 3, 0, 0, 1, 2, 0], faces = [0, 1, 2, 0],
             num_vertices = 3, num_faces = 1\<rparr>) \<and>
   3 * length (O_compact triangle_final) < (2 :: nat) ^ 31 \<and>
   4 * length (F_compact triangle_final) < (2 :: nat) ^ 31 \<and>
   sint (3 :: cint) = int (length (O_compact triangle_final)) \<and>
   [1, 0, 0, 3, 0, 0, 1, 2, 0]
     = concat (map (denormalized (normalize_scale triangle_final) (normalize_offset triangle_final))
                 (O_compact triangle_final)) \<and>
   sint (1 :: cint) = int (length (F_compact triangle_final)) \<and>
   [0, 1, 2, 0] = concat (map quad_indices (F_compact triangle_final))"
proof -
  have a: "3 * length (O_compact triangle_final) < (2 :: nat) ^ 31"
    by (simp add: triangle_final_def)
  have b: "4 * length (F_compact triangle_final) < (2 :: nat) ^ 31"
    by (simp add: triangle_final_def)
  from output_is_denormalized_compact_mesh [OF triangle_run]
  obtain field where st: "run_stages sample_solver triangle_verts 3 triangle_faces 1 10 0
        False True False False False = (spec_stage_order 10 True False, Inr field)"
    and v: "3 * length (O_compact field) < 2 ^ 31 \<longrightarrow>
       sint (3 :: cint) = int (length (O_compact field)) \<and>
       [1, 0, 0, 3, 0, 0, 1, 2, 0]
         = concat (map (denormalized (normalize_scale field) (normalize_offset field))
                     (O_compact field))"
    and f: "4 * length (F_compact field) < 2 ^ 31 \<longrightarrow>
       sint (1 :: cint) = int (length (F_compact field)) \<and>
       [0, 1, 2, 0] = concat (map quad_indices (F_compact field))"
    by auto
  from st have "field = triangle_final" by (simp add: triangle_stages)
  with v f a b show ?thesis using triangle_run by blast
qed

subsection \<open>Face indices outside the vertex array\<close>

text \<open>
  Claim C9. If some corner of some face holds an index that is negative or not below the
  vertex count \<open>N\<close>, mesh loading on \<open>N \<ge> 0\<close> positions ends with the exception
  \<open>out_of_range\<close> of the checked access \<^verbatim>\<open>positions.at\<close>; a run whose
  preconditions hold has then entered the flag and the loading stage only and ends with
  that exception; and no run on such an input returns a result.
\<close>

theorem stray_face_index_raises:
  assumes k: "k < 3 * nat (sint n_faces)"
    and bad: "sint (face_indices k) < 0 \<or> sint n_verts \<le> sint (face_indices k)"
  shows "(0 \<le> sint n_verts \<longrightarrow>
            LoadFromArrays_compact verts n_verts face_indices n_faces = Inl out_of_range) \<and>
         (0 < sint n_verts \<and> 0 < sint target \<longrightarrow>
            run_quadriflow eng verts n_verts face_indices n_faces target seed ps pb ads ags mcf
              = ([Apply_flags_and_seed, Load_and_normalize], Inl out_of_range)) \<and>
         (\<forall>res. snd (run_quadriflow eng verts n_verts face_indices n_faces target seed
                        ps pb ads ags mcf) \<noteq> Inr res)"
proof -
  have nf: "0 < sint n_faces" using k by (cases "0 < sint n_faces") simp_all
  have l: "LoadFromArrays_compact verts n_verts face_indices n_faces = Inl out_of_range"
    if "0 \<le> sint n_verts"
    using that k bad by (rule load_out_of_range)
  have r: "run_quadriflow eng verts n_verts face_indices n_faces target seed ps pb ads ags mcf
             = ([Apply_flags_and_seed, Load_and_normalize], Inl out_of_range)"
    if "0 < sint n_verts" "0 < sint target"
    using that nf l by (intro run_load_failure) simp_all
  have n: "snd (run_quadriflow eng verts n_verts face_indices n_faces target seed
                  ps pb ads ags mcf) \<noteq> Inr res" for res
  proof (cases "0 < sint n_verts \<and> 0 < sint target")
    case True
    then show ?thesis using r by simp
  next
    case False
    then show ?thesis by (auto simp: run_quadriflow_def)
  qed
  from l r n show ?thesis by blast
qed

theorem stray_face_index_raises_witness:
  "(2 :: nat) < 3 * nat (sint (1 :: cint)) \<and>
   sint (3 :: cint) \<le> sint (stray_faces 2) \<and>
   LoadFromArrays_compact triangle_verts 3 stray_faces 1 = Inl out_of_range \<and>
   run_quadriflow sample_solver triangle_verts 3 stray_faces 1 10 0 False False False False False
     = ([Apply_flags_and_seed, Load_and_normalize], Inl out_of_range)"
proof -
  have k: "(2 :: nat) < 3 * nat (sint (1 :: cint))" by simp
  have b: "sint (3 :: cint) \<le> sint (stray_faces 2)" by (simp add: stray_faces_def)
  have nv: "0 \<le> sint (3 :: cint)" "0 < sint (3 :: cint) \<and> 0 < sint (10 :: cint)" by simp_all
  have bad: "sint (stray_faces 2) < 0 \<or> sint (3 :: cint) \<le> sint (stray_faces 2)"
    using b by (rule disjI2)
  from stray_face_index_raises
         [where k = 2 and n_faces = 1 and face_indices = stray_faces and n_verts = 3
            and verts = triangle_verts and target = 10 and eng = sample_solver and seed = 0
            and ps = False and pb = False and ads = False and ags = False and mcf = False,
          OF k bad]
  show ?thesis using k b nv by blast
qed

end
